theory Spec2Isabelle
  imports Main
begin

section \<open>Python strings\<close>

text \<open>
  A Python \<open>str\<close> is a sequence of Unicode code points, so a string is a list of natural
  numbers and \<open>length\<close> counts what Python's \<open>len\<close> counts. ASCII literals of the source
  are written \<open>str ''...''\<close>; the bullet glyph of the harvesters is the code point 8226
  (U+2022) and the line feed is 10.
\<close>

type_synonym pystr = "nat list"

definition str :: "string \<Rightarrow> pystr" where
  "str = map of_char"

definition nl :: pystr where
  "nl = [10]"

definition bullet :: pystr where
  "bullet = [8226]"

text \<open>
  The part of Python's Unicode database that lies beyond ASCII is not part of the
  repository. It is a parameter of the model: on ASCII the functions below compute what
  Python computes, elsewhere they ask the database.
\<close>

record unicode_db =
  lower_nonascii :: "pystr \<Rightarrow> pystr"
  isalpha_nonascii :: "nat \<Rightarrow> bool"
  isdecimal_nonascii :: "nat \<Rightarrow> bool"
  isdigit_nonascii :: "nat \<Rightarrow> bool"
  isnumeric_nonascii :: "nat \<Rightarrow> bool"

definition is_ascii :: "pystr \<Rightarrow> bool" where
  "is_ascii s = list_all (\<lambda>c. c < 128) s"

definition ascii_lower :: "nat \<Rightarrow> nat" where
  "ascii_lower c = (if 65 \<le> c \<and> c \<le> 90 then c + 32 else c)"

definition lower :: "unicode_db \<Rightarrow> pystr \<Rightarrow> pystr" where
  \<comment> \<open>\<open>s.lower()\<close>\<close>
  "lower U s = (if is_ascii s then map ascii_lower s else lower_nonascii U s)"

definition cp_isdigit :: "unicode_db \<Rightarrow> nat \<Rightarrow> bool" where
  "cp_isdigit U c = (if c < 128 then 48 \<le> c \<and> c \<le> 57 else isdigit_nonascii U c)"

definition cp_isalpha :: "unicode_db \<Rightarrow> nat \<Rightarrow> bool" where
  "cp_isalpha U c =
     (if c < 128 then (65 \<le> c \<and> c \<le> 90) \<or> (97 \<le> c \<and> c \<le> 122) else isalpha_nonascii U c)"

definition cp_isdecimal :: "unicode_db \<Rightarrow> nat \<Rightarrow> bool" where
  "cp_isdecimal U c = (if c < 128 then 48 \<le> c \<and> c \<le> 57 else isdecimal_nonascii U c)"

definition cp_isnumeric :: "unicode_db \<Rightarrow> nat \<Rightarrow> bool" where
  "cp_isnumeric U c = (if c < 128 then 48 \<le> c \<and> c \<le> 57 else isnumeric_nonascii U c)"

definition cp_isalnum :: "unicode_db \<Rightarrow> nat \<Rightarrow> bool" where
  \<comment> \<open>\<open>c.isalnum()\<close> for one character: alphabetic, decimal, digit or numeric\<close>
  "cp_isalnum U c = (cp_isalpha U c \<or> cp_isdecimal U c \<or> cp_isdigit U c \<or> cp_isnumeric U c)"

definition isdigit :: "unicode_db \<Rightarrow> pystr \<Rightarrow> bool" where
  \<comment> \<open>\<open>s.isdigit()\<close>: false on the empty string\<close>
  "isdigit U s = (s \<noteq> [] \<and> list_all (cp_isdigit U) s)"

definition isspace :: "nat \<Rightarrow> bool" where
  \<comment> \<open>the characters that \<open>str.strip()\<close> removes\<close>
  "isspace c =
     ((9 \<le> c \<and> c \<le> 13) \<or> (28 \<le> c \<and> c \<le> 32) \<or> c = 133 \<or> c = 160 \<or> c = 5760
      \<or> (8192 \<le> c \<and> c \<le> 8202) \<or> c = 8232 \<or> c = 8233 \<or> c = 8239 \<or> c = 8287
      \<or> c = 12288)"

definition strip :: "pystr \<Rightarrow> pystr" where
  \<comment> \<open>\<open>s.strip()\<close>\<close>
  "strip s = rev (dropWhile isspace (rev (dropWhile isspace s)))"

definition lstrip_chars :: "pystr \<Rightarrow> pystr \<Rightarrow> pystr" where
  \<comment> \<open>\<open>s.lstrip(chars)\<close>\<close>
  "lstrip_chars chars s = dropWhile (\<lambda>c. c \<in> set chars) s"

definition startswith :: "pystr \<Rightarrow> pystr \<Rightarrow> bool" where
  \<comment> \<open>\<open>s.startswith(p)\<close>\<close>
  "startswith s p = (take (length p) s = p)"

definition endswith :: "pystr \<Rightarrow> pystr \<Rightarrow> bool" where
  "endswith s p = startswith (rev s) (rev p)"

fun contains :: "pystr \<Rightarrow> pystr \<Rightarrow> bool" where
  \<comment> \<open>\<open>sub in s\<close>\<close>
  "contains sub [] = (sub = [])"
| "contains sub (c # cs) = (startswith (c # cs) sub \<or> contains sub cs)"

fun split :: "nat \<Rightarrow> pystr \<Rightarrow> pystr list" where
  \<comment> \<open>\<open>s.split(sep)\<close> for a separator of one character: never the empty list\<close>
  "split sep [] = [[]]"
| "split sep (c # cs) =
     (if c = sep then [] # split sep cs
      else (case split sep cs of [] \<Rightarrow> [[c]] | l # ls \<Rightarrow> (c # l) # ls))"

fun join :: "pystr \<Rightarrow> pystr list \<Rightarrow> pystr" where
  \<comment> \<open>\<open>sep.join(xs)\<close>\<close>
  "join sep [] = []"
| "join sep [x] = x"
| "join sep (x # y # ys) = x @ sep @ join sep (y # ys)"

function remove_all :: "pystr \<Rightarrow> pystr \<Rightarrow> pystr" where
  \<comment> \<open>\<open>s.replace(old, '')\<close>: every occurrence, left to right, without overlap\<close>
  "remove_all old [] = []"
| "remove_all old (c # cs) =
     (if old \<noteq> [] \<and> startswith (c # cs) old
      then remove_all old (drop (length old) (c # cs))
      else c # remove_all old cs)"
  by pat_completeness auto
termination
  by (relation "measure (\<lambda>(old, s). length s)") (auto simp: neq_Nil_conv)

section \<open>Language detection\<close>

fun rfind_from :: "nat \<Rightarrow> pystr \<Rightarrow> int \<Rightarrow> int \<Rightarrow> int" where
  "rfind_from c [] i found = found"
| "rfind_from c (x # xs) i found = rfind_from c xs (i + 1) (if x = c then i else found)"

definition rfind :: "pystr \<Rightarrow> nat \<Rightarrow> int" where
  \<comment> \<open>\<open>p.rfind(c)\<close>: the last index of \<open>c\<close>, or -1\<close>
  "rfind p c = rfind_from c p 0 (- 1)"

definition splitext :: "pystr \<Rightarrow> pystr \<times> pystr" where
  \<comment> \<open>\<open>os.path.splitext\<close> of the standard library (posixpath): the extension starts at the
      last dot of the last path component, unless only dots come before it there\<close>
  "splitext p =
     (let sepIndex = rfind p 47; dotIndex = rfind p 46 in
      if dotIndex > sepIndex
           \<and> list_ex (\<lambda>c. c \<noteq> 46) (take (nat (dotIndex - (sepIndex + 1))) (drop (nat (sepIndex + 1)) p))
      then (take (nat dotIndex) p, drop (nat dotIndex) p)
      else (p, []))"

definition extension_map :: "(pystr \<times> pystr) list" where
  "extension_map =
     [(str ''.py'', str ''python''),
      (str ''.js'', str ''javascript''),
      (str ''.ts'', str ''typescript''),
      (str ''.java'', str ''java''),
      (str ''.cpp'', str ''cpp''),
      (str ''.c'', str ''c''),
      (str ''.cs'', str ''csharp''),
      (str ''.php'', str ''php''),
      (str ''.rb'', str ''ruby''),
      (str ''.go'', str ''go''),
      (str ''.rs'', str ''rust''),
      (str ''.swift'', str ''swift''),
      (str ''.kt'', str ''kotlin''),
      (str ''.scala'', str ''scala''),
      (str ''.R'', str ''r''),
      (str ''.sh'', str ''bash''),
      (str ''.sql'', str ''sql''),
      (str ''.html'', str ''html''),
      (str ''.css'', str ''css''),
      (str ''.scss'', str ''scss''),
      (str ''.yaml'', str ''yaml''),
      (str ''.yml'', str ''yaml''),
      (str ''.json'', str ''json''),
      (str ''.xml'', str ''xml''),
      (str ''.md'', str ''markdown'')]"

definition detect_language_from_path :: "unicode_db \<Rightarrow> pystr \<Rightarrow> pystr" where
  "detect_language_from_path U file_path =
     (let ext = snd (splitext file_path) in
      case map_of extension_map (lower U ext) of
        None \<Rightarrow> str ''text''
      | Some lang \<Rightarrow> lang)"

section \<open>Parsing a code-generation response\<close>

record file_artifact =
  path :: pystr
  content :: pystr
  language :: pystr

datatype code_section = Analysis | Files | Notes | Dependencies

record code_result =
  task_key :: pystr
  files :: "file_artifact list"
  analysis :: pystr
  impl_notes :: pystr
  dependencies :: "pystr list"

text \<open>
  The local variables of the scanning loop. \<open>current_file\<close> is \<open>None\<close> or a string and
  the source only ever tests its truth value: \<open>None\<close> and the empty string are false.
\<close>

record ('r, 's) scan =
  result :: 'r
  current_section :: "'s option"
  current_file :: "pystr option"
  current_content :: "pystr list"

definition truthy :: "pystr option \<Rightarrow> bool" where
  "truthy f = (case f of None \<Rightarrow> False | Some p \<Rightarrow> p \<noteq> [])"

definition file_of :: "unicode_db \<Rightarrow> pystr option \<Rightarrow> pystr list \<Rightarrow> file_artifact list" where
  \<comment> \<open>the dictionary appended for the file in progress\<close>
  "file_of U f cont =
     (case f of
        None \<Rightarrow> []
      | Some p \<Rightarrow> [\<lparr>path = p, content = join nl cont, language = detect_language_from_path U p\<rparr>])"

definition file_marker :: pystr where
  "file_marker = str ''### File:''"

definition fence :: pystr where
  "fence = str ''```''"

definition code_step ::
  "unicode_db \<Rightarrow> (code_result, code_section) scan \<Rightarrow> pystr \<Rightarrow> (code_result, code_section) scan" where
  \<comment> \<open>one iteration of the loop of \<open>_parse_code_response\<close>\<close>
  "code_step U st line =
     (let line_stripped = strip line in
      if startswith line_stripped (str ''## Analysis'') then st\<lparr>current_section := Some Analysis\<rparr>
      else if startswith line_stripped (str ''## Files to Create/Modify'')
        then st\<lparr>current_section := Some Files\<rparr>
      else if startswith line_stripped (str ''## Implementation Notes'')
        then st\<lparr>current_section := Some Notes\<rparr>
      else if startswith line_stripped (str ''## Dependencies'')
        then st\<lparr>current_section := Some Dependencies\<rparr>
      else if current_section st = Some Files \<and> startswith line_stripped file_marker then
        st\<lparr>result :=
             (if truthy (current_file st)
              then (result st)\<lparr>files := files (result st)
                                   @ file_of U (current_file st) (current_content st)\<rparr>
              else result st),
           current_file := Some (strip (remove_all file_marker line_stripped)),
           current_content := []\<rparr>
      else if current_section st = Some Files \<and> truthy (current_file st) then
        (if startswith line_stripped fence \<and> length (current_content st) = 0 then st
         else if startswith line_stripped fence \<and> length (current_content st) > 0 then st
         else st\<lparr>current_content := current_content st @ [line]\<rparr>)
      else if current_section st = Some Analysis
        then st\<lparr>result := (result st)\<lparr>analysis := analysis (result st) @ line @ nl\<rparr>\<rparr>
      else if current_section st = Some Notes
        then st\<lparr>result := (result st)\<lparr>impl_notes := impl_notes (result st) @ line @ nl\<rparr>\<rparr>
      else if current_section st = Some Dependencies then
        (if line_stripped \<noteq> [] \<and> \<not> startswith line_stripped (str ''#'')
         then st\<lparr>result := (result st)\<lparr>dependencies := dependencies (result st) @ [line_stripped]\<rparr>\<rparr>
         else st)
      else st)"

definition code_init :: "(pystr \<rightharpoonup> pystr) \<Rightarrow> (code_result, code_section) scan" where
  "code_init task_data =
     \<lparr>result = \<lparr>task_key = (case task_data (str ''key'') of None \<Rightarrow> str ''unknown'' | Some k \<Rightarrow> k),
                 files = [], analysis = [], impl_notes = [], dependencies = []\<rparr>,
      current_section = None, current_file = None, current_content = []\<rparr>"

definition code_finish :: "unicode_db \<Rightarrow> (code_result, code_section) scan \<Rightarrow> code_result" where
  \<comment> \<open>after the loop: "Don't forget the last file"\<close>
  "code_finish U st =
     (if truthy (current_file st) \<and> current_content st \<noteq> []
      then (result st)\<lparr>files := files (result st) @ file_of U (current_file st) (current_content st)\<rparr>
      else result st)"

definition parse_code_response :: "unicode_db \<Rightarrow> pystr \<Rightarrow> (pystr \<rightharpoonup> pystr) \<Rightarrow> code_result" where
  "parse_code_response U response_content task_data =
     code_finish U (foldl (code_step U) (code_init task_data) (split 10 response_content))"

definition plain_db :: unicode_db where
  \<comment> \<open>a database that knows no letter, digit or case beyond ASCII\<close>
  "plain_db = \<lparr>lower_nonascii = map ascii_lower, isalpha_nonascii = (\<lambda>c. False),
               isdecimal_nonascii = (\<lambda>c. False), isdigit_nonascii = (\<lambda>c. False),
               isnumeric_nonascii = (\<lambda>c. False)\<rparr>"

section \<open>Parsing a test-generation response\<close>

datatype test_section = Strategy | Test_Files | Test_Dependencies | Instructions

record test_result =
  test_files :: "file_artifact list"
  strategy :: pystr
  test_dependencies :: "pystr list"
  run_instructions :: pystr

definition test_step ::
  "unicode_db \<Rightarrow> (test_result, test_section) scan \<Rightarrow> pystr \<Rightarrow> (test_result, test_section) scan" where
  \<comment> \<open>one iteration of the loop of \<open>_parse_test_response\<close>\<close>
  "test_step U st line =
     (let line_stripped = strip line in
      if startswith line_stripped (str ''## Test Strategy'') then st\<lparr>current_section := Some Strategy\<rparr>
      else if startswith line_stripped (str ''## Test Files'')
        then st\<lparr>current_section := Some Test_Files\<rparr>
      else if startswith line_stripped (str ''## Test Dependencies'')
        then st\<lparr>current_section := Some Test_Dependencies\<rparr>
      else if startswith line_stripped (str ''## Running the Tests'')
        then st\<lparr>current_section := Some Instructions\<rparr>
      else if current_section st = Some Test_Files \<and> startswith line_stripped file_marker then
        st\<lparr>result :=
             (if truthy (current_file st)
              then (result st)\<lparr>test_files := test_files (result st)
                                   @ file_of U (current_file st) (current_content st)\<rparr>
              else result st),
           current_file := Some (strip (remove_all file_marker line_stripped)),
           current_content := []\<rparr>
      else if current_section st = Some Test_Files \<and> truthy (current_file st) then
        (if startswith line_stripped fence \<and> length (current_content st) = 0 then st
         else if startswith line_stripped fence \<and> length (current_content st) > 0 then st
         else st\<lparr>current_content := current_content st @ [line]\<rparr>)
      else if current_section st = Some Strategy
        then st\<lparr>result := (result st)\<lparr>strategy := strategy (result st) @ line @ nl\<rparr>\<rparr>
      else if current_section st = Some Test_Dependencies then
        (if line_stripped \<noteq> [] \<and> \<not> startswith line_stripped (str ''#'')
         then st\<lparr>result := (result st)\<lparr>test_dependencies :=
                                            test_dependencies (result st) @ [line_stripped]\<rparr>\<rparr>
         else st)
      else if current_section st = Some Instructions
        then st\<lparr>result := (result st)\<lparr>run_instructions := run_instructions (result st) @ line @ nl\<rparr>\<rparr>
      else st)"

definition test_init :: "(test_result, test_section) scan" where
  "test_init =
     \<lparr>result = \<lparr>test_files = [], strategy = [], test_dependencies = [], run_instructions = []\<rparr>,
      current_section = None, current_file = None, current_content = []\<rparr>"

definition test_finish :: "unicode_db \<Rightarrow> (test_result, test_section) scan \<Rightarrow> test_result" where
  "test_finish U st =
     (if truthy (current_file st) \<and> current_content st \<noteq> []
      then (result st)\<lparr>test_files := test_files (result st)
                                      @ file_of U (current_file st) (current_content st)\<rparr>
      else result st)"

definition parse_test_response :: "unicode_db \<Rightarrow> pystr \<Rightarrow> test_result" where
  "parse_test_response U response_content =
     test_finish U (foldl (test_step U) test_init (split 10 response_content))"

section \<open>Harvesting list items\<close>

definition marker_chars :: pystr where
  \<comment> \<open>the argument of \<open>lstrip\<close> in both harvesters\<close>
  "marker_chars = str ''- *'' @ bullet @ str ''0123456789. ''"

definition list_item :: "unicode_db \<Rightarrow> pystr \<Rightarrow> bool" where
  \<comment> \<open>\<open>line.startswith(('-', '*', bullet)) or line[0:2].replace('.', '').isdigit()\<close>\<close>
  "list_item U line =
     (startswith line (str ''-'') \<or> startswith line (str ''*'') \<or> startswith line bullet
      \<or> isdigit U (remove_all (str ''.'') (take 2 line)))"

fun acceptance_loop :: "unicode_db \<Rightarrow> bool \<Rightarrow> pystr list \<Rightarrow> pystr list \<Rightarrow> pystr list" where
  \<comment> \<open>the loop of \<open>_extract_acceptance_criteria\<close>: the flag, the list built so far, the
      lines still to read; \<open>break\<close> returns the list\<close>
  "acceptance_loop U in_acceptance_section criteria [] = criteria"
| "acceptance_loop U in_acceptance_section criteria (l # ls) =
     (let line = strip l in
      if contains (str ''acceptance criteria'') (lower U line)
        then acceptance_loop U True criteria ls
      else if in_acceptance_section then
        (if startswith line (str ''#'') \<or> startswith line (str ''**'') then criteria
         else if list_item U line
           then acceptance_loop U in_acceptance_section
                  (criteria @ [lstrip_chars marker_chars line]) ls
         else acceptance_loop U in_acceptance_section criteria ls)
      else acceptance_loop U in_acceptance_section criteria ls)"

definition extract_acceptance_criteria :: "unicode_db \<Rightarrow> pystr \<Rightarrow> pystr list" where
  "extract_acceptance_criteria U description = acceptance_loop U False [] (split 10 description)"

definition keyword_list :: "pystr list" where
  "keyword_list = [str ''requirements'', str ''acceptance criteria'', str ''should'', str ''must'']"

definition has_keyword :: "unicode_db \<Rightarrow> pystr \<Rightarrow> bool" where
  \<comment> \<open>\<open>any(keyword in line.lower() for keyword in [...])\<close>\<close>
  "has_keyword U line = list_ex (\<lambda>keyword. contains keyword (lower U line)) keyword_list"

fun requirements_loop :: "unicode_db \<Rightarrow> bool \<Rightarrow> pystr list \<Rightarrow> pystr list \<Rightarrow> pystr list" where
  \<comment> \<open>the loop of \<open>_extract_requirements_from_content\<close>\<close>
  "requirements_loop U in_requirements requirements [] = requirements"
| "requirements_loop U in_requirements requirements (l # ls) =
     (let line = strip l in
      if has_keyword U line then requirements_loop U True requirements ls
      else if in_requirements then
        (if list_item U line
           then requirements_loop U in_requirements
                  (requirements @ [lstrip_chars marker_chars line]) ls
         else if line \<noteq> [] \<and> \<not> list_ex (cp_isalnum U) line then requirements
         else requirements_loop U in_requirements requirements ls)
      else requirements_loop U in_requirements requirements ls)"

definition extract_requirements_from_content :: "unicode_db \<Rightarrow> pystr \<Rightarrow> pystr list" where
  "extract_requirements_from_content U content_text =
     requirements_loop U False [] (split 10 content_text)"

section \<open>Vocabulary of the properties\<close>

definition section_header :: "pystr \<Rightarrow> bool" where
  \<comment> \<open>a trimmed line that opens a section of a code-generation response\<close>
  "section_header t =
     (startswith t (str ''## Analysis'') \<or> startswith t (str ''## Files to Create/Modify'')
      \<or> startswith t (str ''## Implementation Notes'') \<or> startswith t (str ''## Dependencies''))"

definition test_section_header :: "pystr \<Rightarrow> bool" where
  \<comment> \<open>a trimmed line that opens a section of a test-generation response\<close>
  "test_section_header t =
     (startswith t (str ''## Test Strategy'') \<or> startswith t (str ''## Test Files'')
      \<or> startswith t (str ''## Test Dependencies'') \<or> startswith t (str ''## Running the Tests''))"

definition body_line :: "pystr \<Rightarrow> bool" where
  \<comment> \<open>a line that neither opens a section nor a file\<close>
  "body_line l = (\<not> section_header (strip l) \<and> \<not> startswith (strip l) file_marker)"

definition test_body_line :: "pystr \<Rightarrow> bool" where
  "test_body_line l = (\<not> test_section_header (strip l) \<and> \<not> startswith (strip l) file_marker)"

definition fence_line :: "pystr \<Rightarrow> bool" where
  "fence_line l = startswith (strip l) fence"

definition file_path_of :: "pystr \<Rightarrow> pystr" where
  \<comment> \<open>what a file-header line makes the current file\<close>
  "file_path_of h = strip (remove_all file_marker (strip h))"

definition no_newline :: "pystr \<Rightarrow> bool" where
  "no_newline l = (10 \<notin> set l)"

definition harvest :: "unicode_db \<Rightarrow> pystr list \<Rightarrow> pystr list" where
  \<comment> \<open>the items of the lines that have a list marker, in order\<close>
  "harvest U ls =
     map (lstrip_chars marker_chars) (filter (list_item U) (map strip ls))"

definition render :: "pystr \<Rightarrow> pystr \<Rightarrow> pystr \<Rightarrow> pystr \<Rightarrow> pystr" where
  \<comment> \<open>a single file block: the Files header, a file header, an opening fence line, the
      lines of the content, a closing fence line\<close>
  "render h f1 c f2 = join nl ([str ''## Files to Create/Modify'', h, f1] @ split 10 c @ [f2])"



definition separator_line :: "unicode_db \<Rightarrow> pystr \<Rightarrow> bool" where
  \<comment> \<open>a trimmed line that is not empty, has no alphanumeric character and no bullet marker\<close>
  "separator_line U t =
     (t \<noteq> [] \<and> \<not> list_ex (cp_isalnum U) t \<and> \<not> startswith t (str ''-'')
      \<and> \<not> startswith t (str ''*'') \<and> \<not> startswith t bullet)"

definition well_formed_file :: "unicode_db \<Rightarrow> file_artifact \<Rightarrow> bool" where
  \<comment> \<open>a file of a result: a non-empty path and the language of that path\<close>
  "well_formed_file U f = (path f \<noteq> [] \<and> language f = detect_language_from_path U (path f))"

definition absent :: "pystr \<Rightarrow> pystr \<Rightarrow> bool" where
  \<comment> \<open>no line of the text, once trimmed, starts with the marker\<close>
  "absent marker text = list_all (\<lambda>l. \<not> startswith (strip l) marker) (split 10 text)"

definition lowercases :: "unicode_db \<Rightarrow> bool" where
  \<comment> \<open>the database's \<open>lower\<close> leaves no ASCII capital letter, as Python's does\<close>
  "lowercases U = (\<forall>s. list_all (\<lambda>c. c < 65 \<or> 90 < c) (lower_nonascii U s))"

definition leaves_files :: "pystr list \<Rightarrow> bool" where
  \<comment> \<open>what may follow the lines of a file: nothing, or the header of another section after
      which the Files header does not return\<close>
  "leaves_files rest =
     (case rest of
        [] \<Rightarrow> True
      | sh # ls \<Rightarrow>
          section_header (strip sh)
          \<and> list_all (\<lambda>l. \<not> startswith (strip l) (str ''## Files to Create/Modify'')) (sh # ls))"

definition test_leaves_files :: "pystr list \<Rightarrow> bool" where
  \<comment> \<open>what may follow the lines of a file: nothing, or the header of another section after
      which the Files header does not return\<close>
  "test_leaves_files rest =
     (case rest of
        [] \<Rightarrow> True
      | sh # ls \<Rightarrow>
          test_section_header (strip sh)
          \<and> list_all (\<lambda>l. \<not> startswith (strip l) (str ''## Test Files'')) (sh # ls))"

section \<open>Concrete inputs\<close>

definition section8_input :: pystr where
  \<comment> \<open>the concrete scenario of the specification\<close>
  "section8_input = join nl
     [str ''## Files to Create/Modify'', [],
      str ''### File: src/a.py'', str ''```python'', str ''x = 1'', str ''```'', [],
      str ''### File: src/b.py'', str ''```python'', str ''y = 2'', str ''```'', [],
      str ''## Dependencies'', str ''- requests>=2.0.0'', str ''- pyyaml'']"

definition headerless_input :: pystr where
  "headerless_input = join nl
     [str ''Here is the code:'', str ''### File: src/a.py'', str ''x = 1'', str ''# Analysis'',
      str ''- requests'']"



definition double_marker_input :: pystr where
  "double_marker_input = join nl
     [str ''## Files to Create/Modify'', str ''### File: a.py ### File: b.py'', str ''x = 1'']"

definition start_state :: "(code_result, code_section) scan" where
  "start_state = code_step plain_db (code_init Map.empty) (str ''## Files to Create/Modify'')"

definition test_start_state :: "(test_result, test_section) scan" where
  "test_start_state = test_step plain_db test_init (str ''## Test Files'')"

definition markdown_content :: pystr where
  "markdown_content = join nl [str ''intro'', str ''## Analysis'', str ''more'']"

definition adjacent_headers_input :: pystr where
  "adjacent_headers_input = join nl
     [str ''## Files to Create/Modify'', str ''### File: src/a.py'', str ''### File: src/b.py'',
      str ''y = 2'']"

definition adjacent_test_headers_input :: pystr where
  "adjacent_test_headers_input = join nl
     [str ''## Test Files'', str ''### File: tests/test_a.py'', str ''### File: tests/test_b.py'',
      str ''assert True'']"


definition refusal_input :: pystr where
  \<comment> \<open>no header, no file marker, one fence that is never closed\<close>
  "refusal_input = join nl [str ''Sorry, I cannot write this file.'', str ''```python'', str ''x = 1'']"

definition plain_description :: pystr where
  "plain_description = join nl [str ''The login page'', str ''- loads fast'']"

section \<open>Evaluation\<close>

lemmas string_eval = str_def nl_def bullet_def strip_def isspace_def startswith_def

lemmas detect_eval = detect_language_from_path_def splitext_def rfind_def lower_def is_ascii_def
  ascii_lower_def extension_map_def

lemmas code_eval = code_step_def code_init_def code_finish_def parse_code_response_def truthy_def
  file_of_def file_marker_def fence_def Let_def

lemmas test_eval = test_step_def test_init_def test_finish_def parse_test_response_def truthy_def
  file_of_def file_marker_def fence_def Let_def

lemmas harvest_eval = list_item_def marker_chars_def lstrip_chars_def isdigit_def cp_isdigit_def
  cp_isalnum_def cp_isalpha_def cp_isdecimal_def cp_isnumeric_def has_keyword_def
  keyword_list_def lower_def is_ascii_def ascii_lower_def plain_db_def
  extract_acceptance_criteria_def extract_requirements_from_content_def Let_def

section \<open>Facts about the string functions\<close>

lemma startswith_Nil: "startswith s []"
  by (simp add: startswith_def)

lemma startswith_Cons:
  "startswith s (x # xs) = (case s of [] \<Rightarrow> False | y # ys \<Rightarrow> y = x \<and> startswith ys xs)"
  by (cases s) (auto simp: startswith_def)

lemma marker_not_header: "startswith t file_marker \<Longrightarrow> \<not> section_header t"
  by (auto simp: file_marker_def section_header_def str_def startswith_Cons split: list.splits)

lemma fence_not_header: "startswith t fence \<Longrightarrow> \<not> section_header t \<and> \<not> startswith t file_marker"
  by (auto simp: file_marker_def fence_def section_header_def str_def startswith_Cons split: list.splits)

lemma split_not_Nil: "split sep s \<noteq> []"
  by (induction s) (auto split: list.splits)

lemma split_no_sep: "l \<in> set (split sep s) \<Longrightarrow> sep \<notin> set l"
  by (induction s arbitrary: l) (auto split: list.splits if_splits)

lemma join_split: "join [sep] (split sep s) = s"
proof (induction s)
  case Nil
  show ?case by simp
next
  case (Cons c cs)
  obtain l ls where sp: "split sep cs = l # ls"
    using split_not_Nil [of sep cs] by (cases "split sep cs") auto
  show ?case
  proof (cases "c = sep")
    case True
    with Cons sp show ?thesis by simp
  next
    case False
    with Cons sp show ?thesis by (cases ls) auto
  qed
qed

lemma split_single: "sep \<notin> set x \<Longrightarrow> split sep x = [x]"
  by (induction x) auto

lemma split_append_sep: "sep \<notin> set x \<Longrightarrow> split sep (x @ sep # rest) = x # split sep rest"
  by (induction x) (auto split: list.splits)

lemma split_join:
  assumes "ls \<noteq> []" and "\<forall>l \<in> set ls. sep \<notin> set l"
  shows "split sep (join [sep] ls) = ls"
  using assms
proof (induction ls)
  case Nil
  then show ?case by simp
next
  case (Cons x xs)
  show ?case
  proof (cases xs)
    case Nil
    with Cons.prems show ?thesis by (simp add: split_single)
  next
    case (Cons y ys)
    with Cons.IH Cons.prems have "split sep (join [sep] (y # ys)) = y # ys" by simp
    with Cons Cons.prems show ?thesis by (simp add: split_append_sep)
  qed
qed

section \<open>The concrete scenario\<close>

lemma section8_lines:
  "split 10 section8_input =
     [str ''## Files to Create/Modify'', [],
      str ''### File: src/a.py'', str ''```python'', str ''x = 1'', str ''```'', [],
      str ''### File: src/b.py'', str ''```python'', str ''y = 2'', str ''```'', [],
      str ''## Dependencies'', str ''- requests>=2.0.0'', str ''- pyyaml'']"
  by (simp add: section8_input_def str_def nl_def)

text \<open>
  C1, as the code computes it: in the scenario of the specification the blank line after a
  closing fence is a line of the file, so each content ends with a line feed, and a
  dependency is the whole trimmed line, bullet marker included.
\<close>

theorem section8_result:
  "files (parse_code_response U section8_input task_data) =
     [\<lparr>path = str ''src/a.py'', content = str ''x = 1'' @ nl, language = str ''python''\<rparr>,
      \<lparr>path = str ''src/b.py'', content = str ''y = 2'' @ nl, language = str ''python''\<rparr>]
   \<and> dependencies (parse_code_response U section8_input task_data) =
     [str ''- requests>=2.0.0'', str ''- pyyaml'']"
  unfolding parse_code_response_def section8_lines
  by (simp add: string_eval detect_eval code_eval)

text \<open>
  C1 as stated (contents \<open>x = 1\<close> and \<open>y = 2\<close>, dependencies without their markers)
  does not hold of the scenario.
\<close>

theorem section8_counterexample:
  "\<not> (map (\<lambda>f. (path f, content f)) (files (parse_code_response plain_db section8_input Map.empty)) =
        [(str ''src/a.py'', str ''x = 1''), (str ''src/b.py'', str ''y = 2'')]
      \<and> dependencies (parse_code_response plain_db section8_input Map.empty) =
        [str ''requests>=2.0.0'', str ''pyyaml''])"
  unfolding parse_code_response_def section8_lines
  by (simp add: string_eval detect_eval code_eval)

section \<open>Responses without a section header\<close>

lemma code_step_none:
  assumes "\<not> section_header (strip l)" and "current_section st = None"
  shows "code_step U st l = st"
  using assms by (simp add: code_step_def section_header_def Let_def)

lemma foldl_code_step_none:
  assumes "\<forall>l \<in> set ls. \<not> section_header (strip l)" and "current_section st = None"
  shows "foldl (code_step U) st ls = st"
  using assms by (induction ls) (simp_all add: code_step_none)

text \<open>
  C9: a response none of whose trimmed lines starts with a section header marker gives no
  file, no dependency and empty analysis and notes: before the first header the loop
  changes nothing.
\<close>

theorem no_header_empty_result:
  assumes "\<forall>l \<in> set (split 10 response_content). \<not> section_header (strip l)"
  shows "files (parse_code_response U response_content task_data) = []
       \<and> dependencies (parse_code_response U response_content task_data) = []
       \<and> analysis (parse_code_response U response_content task_data) = []
       \<and> impl_notes (parse_code_response U response_content task_data) = []"
proof -
  have "foldl (code_step U) (code_init task_data) (split 10 response_content) = code_init task_data"
    using assms by (rule foldl_code_step_none) (simp add: code_init_def)
  then show ?thesis
    by (simp add: parse_code_response_def code_finish_def code_init_def truthy_def)
qed

theorem no_header_empty_result_witness:
  "list_all (\<lambda>l. \<not> section_header (strip l)) (split 10 headerless_input)
   \<and> files (parse_code_response plain_db headerless_input Map.empty) = []
   \<and> dependencies (parse_code_response plain_db headerless_input Map.empty) = []
   \<and> analysis (parse_code_response plain_db headerless_input Map.empty) = []
   \<and> impl_notes (parse_code_response plain_db headerless_input Map.empty) = []"
proof -
  have h: "\<forall>l \<in> set (split 10 headerless_input). \<not> section_header (strip l)"
    by (simp add: headerless_input_def section_header_def string_eval)
  show ?thesis
    using h no_header_empty_result [OF h, of plain_db Map.empty] by (simp add: list_all_iff)
qed

section \<open>The file extractor, step by step\<close>

lemma code_step_body:
  assumes "current_section st = Some Files" and "truthy (current_file st)" and "body_line l"
  shows "code_step U st l =
           (if fence_line l then st else st\<lparr>current_content := current_content st @ [l]\<rparr>)"
  using assms
  by (auto simp: code_step_def body_line_def section_header_def fence_line_def Let_def)

lemma foldl_code_step_body:
  assumes "current_section st = Some Files" and "truthy (current_file st)"
    and "list_all body_line body"
  shows "foldl (code_step U) st body =
           st\<lparr>current_content := current_content st @ filter (\<lambda>l. \<not> fence_line l) body\<rparr>"
  using assms
proof (induction body arbitrary: st)
  case Nil
  then show ?case by simp
next
  case (Cons l ls)
  let ?st = "code_step U st l"
  have step: "?st = (if fence_line l then st else st\<lparr>current_content := current_content st @ [l]\<rparr>)"
    using Cons.prems by (simp add: code_step_body)
  then have "current_section ?st = Some Files" and "truthy (current_file ?st)"
    using Cons.prems by auto
  with Cons.IH [of ?st] Cons.prems
  have "foldl (code_step U) ?st ls =
          ?st\<lparr>current_content := current_content ?st @ filter (\<lambda>l. \<not> fence_line l) ls\<rparr>"
    by simp
  with step show ?case by simp
qed

lemma code_step_no_file:
  assumes "current_section st = Some Files" and "\<not> truthy (current_file st)" and "body_line l"
  shows "code_step U st l = st"
  using assms
  by (auto simp: code_step_def body_line_def section_header_def Let_def)

lemma foldl_code_step_no_file:
  assumes "current_section st = Some Files" and "\<not> truthy (current_file st)"
    and "list_all body_line body"
  shows "foldl (code_step U) st body = st"
  using assms by (induction body) (simp_all add: code_step_no_file)

lemma code_step_file_header:
  assumes "current_section st = Some Files" and "startswith (strip h) file_marker"
  shows "code_step U st h =
           st\<lparr>result := (if truthy (current_file st)
                          then (result st)\<lparr>files := files (result st)
                                 @ file_of U (current_file st) (current_content st)\<rparr>
                          else result st),
              current_file := Some (file_path_of h), current_content := []\<rparr>"
  using assms marker_not_header [of "strip h"]
  by (simp add: code_step_def section_header_def file_path_of_def Let_def)

lemma code_step_files_header:
  assumes "startswith (strip l) (str ''## Files to Create/Modify'')"
  shows "code_step U st l = st\<lparr>current_section := Some Files\<rparr>"
proof -
  have "\<not> startswith (strip l) (str ''## Analysis'')"
    using assms by (auto simp: str_def startswith_Cons split: list.splits)
  with assms show ?thesis by (simp add: code_step_def Let_def)
qed

lemma marker_not_test_header: "startswith t file_marker \<Longrightarrow> \<not> test_section_header t"
  by (auto simp: file_marker_def test_section_header_def str_def startswith_Cons split: list.splits)

lemma test_step_body:
  assumes "current_section st = Some Test_Files" and "truthy (current_file st)" and "test_body_line l"
  shows "test_step U st l =
           (if fence_line l then st else st\<lparr>current_content := current_content st @ [l]\<rparr>)"
  using assms
  by (auto simp: test_step_def test_body_line_def test_section_header_def fence_line_def Let_def)

lemma foldl_test_step_body:
  assumes "current_section st = Some Test_Files" and "truthy (current_file st)"
    and "list_all test_body_line body"
  shows "foldl (test_step U) st body =
           st\<lparr>current_content := current_content st @ filter (\<lambda>l. \<not> fence_line l) body\<rparr>"
  using assms
proof (induction body arbitrary: st)
  case Nil
  then show ?case by simp
next
  case (Cons l ls)
  let ?st = "test_step U st l"
  have step: "?st = (if fence_line l then st else st\<lparr>current_content := current_content st @ [l]\<rparr>)"
    using Cons.prems by (simp add: test_step_body)
  then have "current_section ?st = Some Test_Files" and "truthy (current_file ?st)"
    using Cons.prems by auto
  with Cons.IH [of ?st] Cons.prems
  have "foldl (test_step U) ?st ls =
          ?st\<lparr>current_content := current_content ?st @ filter (\<lambda>l. \<not> fence_line l) ls\<rparr>"
    by simp
  with step show ?case by simp
qed

lemma test_step_no_file:
  assumes "current_section st = Some Test_Files" and "\<not> truthy (current_file st)" and "test_body_line l"
  shows "test_step U st l = st"
  using assms
  by (auto simp: test_step_def test_body_line_def test_section_header_def Let_def)

lemma foldl_test_step_no_file:
  assumes "current_section st = Some Test_Files" and "\<not> truthy (current_file st)"
    and "list_all test_body_line body"
  shows "foldl (test_step U) st body = st"
  using assms by (induction body) (simp_all add: test_step_no_file)

lemma test_step_file_header:
  assumes "current_section st = Some Test_Files" and "startswith (strip h) file_marker"
  shows "test_step U st h =
           st\<lparr>result := (if truthy (current_file st)
                          then (result st)\<lparr>test_files := test_files (result st)
                                 @ file_of U (current_file st) (current_content st)\<rparr>
                          else result st),
              current_file := Some (file_path_of h), current_content := []\<rparr>"
  using assms marker_not_test_header [of "strip h"]
  by (simp add: test_step_def test_section_header_def file_path_of_def Let_def)

lemma test_step_files_header:
  assumes "startswith (strip l) (str ''## Test Files'')"
  shows "test_step U st l = st\<lparr>current_section := Some Test_Files\<rparr>"
proof -
  have "\<not> startswith (strip l) (str ''## Test Strategy'')"
    using assms by (auto simp: str_def startswith_Cons split: list.splits)
  with assms show ?thesis by (simp add: test_step_def Let_def)
qed

section \<open>After the lines of a file\<close>

lemma files_code_finish:
  "files (code_finish U st) =
     files (result st)
     @ (if truthy (current_file st) \<and> current_content st \<noteq> []
        then file_of U (current_file st) (current_content st) else [])"
  by (simp add: code_finish_def)

lemma code_step_outside:
  assumes "current_section st \<noteq> Some Files"
    and "\<not> startswith (strip l) (str ''## Files to Create/Modify'')"
  shows "current_section (code_step U st l) \<noteq> Some Files
       \<and> files (result (code_step U st l)) = files (result st)
       \<and> current_file (code_step U st l) = current_file st
       \<and> current_content (code_step U st l) = current_content st"
  using assms by (simp add: code_step_def Let_def)

lemma code_step_other_header:
  assumes "section_header (strip l)"
    and "\<not> startswith (strip l) (str ''## Files to Create/Modify'')"
  shows "current_section (code_step U st l) \<noteq> Some Files
       \<and> files (result (code_step U st l)) = files (result st)
       \<and> current_file (code_step U st l) = current_file st
       \<and> current_content (code_step U st l) = current_content st"
  using assms by (auto simp: code_step_def section_header_def Let_def)

lemma foldl_code_step_outside:
  assumes "current_section st \<noteq> Some Files"
    and "list_all (\<lambda>l. \<not> startswith (strip l) (str ''## Files to Create/Modify'')) ls"
  shows "files (result (foldl (code_step U) st ls)) = files (result st)
       \<and> current_file (foldl (code_step U) st ls) = current_file st
       \<and> current_content (foldl (code_step U) st ls) = current_content st"
  using assms
proof (induction ls arbitrary: st)
  case Nil
  show ?case by simp
next
  case (Cons l ls)
  from Cons.prems have l: "\<not> startswith (strip l) (str ''## Files to Create/Modify'')"
    and ls: "list_all (\<lambda>l. \<not> startswith (strip l) (str ''## Files to Create/Modify'')) ls"
    by simp_all
  note step = code_step_outside [OF Cons.prems(1) l, of U]
  from step have "current_section (code_step U st l) \<noteq> Some Files" by simp
  from Cons.IH [OF this ls] step show ?case by simp
qed

lemma code_rest_keeps_file:
  assumes "leaves_files rest"
  shows "files (result (foldl (code_step U) st rest)) = files (result st)
       \<and> current_file (foldl (code_step U) st rest) = current_file st
       \<and> current_content (foldl (code_step U) st rest) = current_content st"
proof (cases rest)
  case Nil
  then show ?thesis by simp
next
  case (Cons sh ls)
  with assms have sh: "section_header (strip sh)"
    "\<not> startswith (strip sh) (str ''## Files to Create/Modify'')"
    and ls: "list_all (\<lambda>l. \<not> startswith (strip l) (str ''## Files to Create/Modify'')) ls"
    by (simp_all add: leaves_files_def)
  note step = code_step_other_header [OF sh, of U st]
  from step have "current_section (code_step U st sh) \<noteq> Some Files" by simp
  from foldl_code_step_outside [OF this ls, of U] step Cons show ?thesis by simp
qed

lemma code_finish_after_rest:
  assumes "leaves_files rest"
  shows "files (code_finish U (foldl (code_step U) st (body @ rest))) =
           files (code_finish U (foldl (code_step U) st body))"
  using code_rest_keeps_file [OF assms, of U "foldl (code_step U) st body"]
  by (simp add: files_code_finish)

lemma files_test_finish:
  "test_files (test_finish U st) =
     test_files (result st)
     @ (if truthy (current_file st) \<and> current_content st \<noteq> []
        then file_of U (current_file st) (current_content st) else [])"
  by (simp add: test_finish_def)

lemma test_step_outside:
  assumes "current_section st \<noteq> Some Test_Files"
    and "\<not> startswith (strip l) (str ''## Test Files'')"
  shows "current_section (test_step U st l) \<noteq> Some Test_Files
       \<and> test_files (result (test_step U st l)) = test_files (result st)
       \<and> current_file (test_step U st l) = current_file st
       \<and> current_content (test_step U st l) = current_content st"
  using assms by (simp add: test_step_def Let_def)

lemma test_step_other_header:
  assumes "test_section_header (strip l)"
    and "\<not> startswith (strip l) (str ''## Test Files'')"
  shows "current_section (test_step U st l) \<noteq> Some Test_Files
       \<and> test_files (result (test_step U st l)) = test_files (result st)
       \<and> current_file (test_step U st l) = current_file st
       \<and> current_content (test_step U st l) = current_content st"
  using assms by (auto simp: test_step_def test_section_header_def Let_def)

lemma foldl_test_step_outside:
  assumes "current_section st \<noteq> Some Test_Files"
    and "list_all (\<lambda>l. \<not> startswith (strip l) (str ''## Test Files'')) ls"
  shows "test_files (result (foldl (test_step U) st ls)) = test_files (result st)
       \<and> current_file (foldl (test_step U) st ls) = current_file st
       \<and> current_content (foldl (test_step U) st ls) = current_content st"
  using assms
proof (induction ls arbitrary: st)
  case Nil
  show ?case by simp
next
  case (Cons l ls)
  from Cons.prems have l: "\<not> startswith (strip l) (str ''## Test Files'')"
    and ls: "list_all (\<lambda>l. \<not> startswith (strip l) (str ''## Test Files'')) ls"
    by simp_all
  note step = test_step_outside [OF Cons.prems(1) l, of U]
  from step have "current_section (test_step U st l) \<noteq> Some Test_Files" by simp
  from Cons.IH [OF this ls] step show ?case by simp
qed

lemma test_rest_keeps_file:
  assumes "test_leaves_files rest"
  shows "test_files (result (foldl (test_step U) st rest)) = test_files (result st)
       \<and> current_file (foldl (test_step U) st rest) = current_file st
       \<and> current_content (foldl (test_step U) st rest) = current_content st"
proof (cases rest)
  case Nil
  then show ?thesis by simp
next
  case (Cons sh ls)
  with assms have sh: "test_section_header (strip sh)"
    "\<not> startswith (strip sh) (str ''## Test Files'')"
    and ls: "list_all (\<lambda>l. \<not> startswith (strip l) (str ''## Test Files'')) ls"
    by (simp_all add: test_leaves_files_def)
  note step = test_step_other_header [OF sh, of U st]
  from step have "current_section (test_step U st sh) \<noteq> Some Test_Files" by simp
  from foldl_test_step_outside [OF this ls, of U] step Cons show ?thesis by simp
qed

lemma test_finish_after_rest:
  assumes "test_leaves_files rest"
  shows "test_files (test_finish U (foldl (test_step U) st (body @ rest))) =
           test_files (test_finish U (foldl (test_step U) st body))"
  using test_rest_keeps_file [OF assms, of U "foldl (test_step U) st body"]
  by (simp add: files_test_finish)

section \<open>Content of a file block\<close>




section \<open>The last file of a response\<close>

lemma code_block_at_end:
  assumes "current_section st = Some Files" and "startswith (strip h) file_marker"
    and "list_all body_line body"
  shows "files (code_finish U (foldl (code_step U) (code_step U st h) body)) =
           files (result (code_step U st h))
           @ (if file_path_of h \<noteq> [] \<and> filter (\<lambda>l. \<not> fence_line l) body \<noteq> []
              then [\<lparr>path = file_path_of h,
                      content = join nl (filter (\<lambda>l. \<not> fence_line l) body),
                      language = detect_language_from_path U (file_path_of h)\<rparr>]
              else [])"
proof -
  let ?s = "code_step U st h"
  have hd: "current_section ?s = Some Files" "current_file ?s = Some (file_path_of h)"
    "current_content ?s = []"
    using assms(1,2) by (simp_all add: code_step_file_header)
  show ?thesis
  proof (cases "file_path_of h = []")
    case True
    then have "\<not> truthy (current_file ?s)" using hd by (simp add: truthy_def)
    with hd(1) assms(3) have "foldl (code_step U) ?s body = ?s"
      by (simp add: foldl_code_step_no_file)
    then show ?thesis
      using True hd by (simp add: code_finish_def truthy_def)
  next
    case False
    then have "truthy (current_file ?s)" using hd by (simp add: truthy_def)
    with hd(1) assms(3)
    have "foldl (code_step U) ?s body =
            ?s\<lparr>current_content := current_content ?s @ filter (\<lambda>l. \<not> fence_line l) body\<rparr>"
      by (simp add: foldl_code_step_body)
    then show ?thesis
      using False hd by (simp add: code_finish_def truthy_def file_of_def)
  qed
qed

lemma test_block_at_end:
  assumes "current_section st = Some Test_Files" and "startswith (strip h) file_marker"
    and "list_all test_body_line body"
  shows "test_files (test_finish U (foldl (test_step U) (test_step U st h) body)) =
           test_files (result (test_step U st h))
           @ (if file_path_of h \<noteq> [] \<and> filter (\<lambda>l. \<not> fence_line l) body \<noteq> []
              then [\<lparr>path = file_path_of h,
                      content = join nl (filter (\<lambda>l. \<not> fence_line l) body),
                      language = detect_language_from_path U (file_path_of h)\<rparr>]
              else [])"
proof -
  let ?s = "test_step U st h"
  have hd: "current_section ?s = Some Test_Files" "current_file ?s = Some (file_path_of h)"
    "current_content ?s = []"
    using assms(1,2) by (simp_all add: test_step_file_header)
  show ?thesis
  proof (cases "file_path_of h = []")
    case True
    then have "\<not> truthy (current_file ?s)" using hd by (simp add: truthy_def)
    with hd(1) assms(3) have "foldl (test_step U) ?s body = ?s"
      by (simp add: foldl_test_step_no_file)
    then show ?thesis
      using True hd by (simp add: test_finish_def truthy_def)
  next
    case False
    then have "truthy (current_file ?s)" using hd by (simp add: truthy_def)
    with hd(1) assms(3)
    have "foldl (test_step U) ?s body =
            ?s\<lparr>current_content := current_content ?s @ filter (\<lambda>l. \<not> fence_line l) body\<rparr>"
      by (simp add: foldl_test_step_body)
    then show ?thesis
      using False hd by (simp add: test_finish_def truthy_def file_of_def)
  qed
qed

text \<open>
  C6, as the code has it. Whatever the input and wherever its scan ends, the parser
  returns the files appended during the scan and, after them, the file in progress if its
  path and its accumulated content are not empty: with that path, the accumulated lines
  joined by line feeds and the language looked up from the path; with nothing accumulated
  the file is dropped. In particular, after a file header of the Files section, lines that
  open neither a section nor a file, and then the end of the input or the header of
  another section after which the Files header does not return, the file is appended if
  and only if one of its lines is not a fence line: its path is the trimmed header line
  with every occurrence of the marker removed, trimmed again, and its content the lines
  that are not fence lines. Both parsers do so.
\<close>

theorem last_file_at_end_of_input:
  assumes "current_section st = Some Files" and "startswith (strip h) file_marker"
    and "list_all body_line body" and "leaves_files rest"
    and "current_section st' = Some Test_Files" and "startswith (strip h') file_marker"
    and "list_all test_body_line body'" and "test_leaves_files rest'"
  shows "files (parse_code_response U r task_data) =
           (let sc = foldl (code_step U) (code_init task_data) (split 10 r) in
            files (result sc)
            @ (case current_file sc of
                 None \<Rightarrow> []
               | Some q \<Rightarrow>
                   if q \<noteq> [] \<and> current_content sc \<noteq> []
                   then [\<lparr>path = q, content = join nl (current_content sc),
                           language = detect_language_from_path U q\<rparr>]
                   else []))
       \<and> files (code_finish U (foldl (code_step U) (code_step U st h) (body @ rest))) =
           files (result (code_step U st h))
           @ (if strip (remove_all file_marker (strip h)) \<noteq> []
                 \<and> filter (\<lambda>l. \<not> fence_line l) body \<noteq> []
              then [\<lparr>path = strip (remove_all file_marker (strip h)),
                      content = join nl (filter (\<lambda>l. \<not> fence_line l) body),
                      language = detect_language_from_path U (strip (remove_all file_marker (strip h)))\<rparr>]
              else [])
       \<and> test_files (parse_test_response U r) =
           (let sc = foldl (test_step U) test_init (split 10 r) in
            test_files (result sc)
            @ (case current_file sc of
                 None \<Rightarrow> []
               | Some q \<Rightarrow>
                   if q \<noteq> [] \<and> current_content sc \<noteq> []
                   then [\<lparr>path = q, content = join nl (current_content sc),
                           language = detect_language_from_path U q\<rparr>]
                   else []))
       \<and> test_files (test_finish U (foldl (test_step U) (test_step U st' h') (body' @ rest'))) =
           test_files (result (test_step U st' h'))
           @ (if strip (remove_all file_marker (strip h')) \<noteq> []
                 \<and> filter (\<lambda>l. \<not> fence_line l) body' \<noteq> []
              then [\<lparr>path = strip (remove_all file_marker (strip h')),
                      content = join nl (filter (\<lambda>l. \<not> fence_line l) body'),
                      language = detect_language_from_path U (strip (remove_all file_marker (strip h')))\<rparr>]
              else [])"
proof -
  have "files (parse_code_response U r task_data) =
           (let sc = foldl (code_step U) (code_init task_data) (split 10 r) in
            files (result sc)
            @ (case current_file sc of
                 None \<Rightarrow> []
               | Some q \<Rightarrow>
                   if q \<noteq> [] \<and> current_content sc \<noteq> []
                   then [\<lparr>path = q, content = join nl (current_content sc),
                           language = detect_language_from_path U q\<rparr>]
                   else []))"
    by (simp add: parse_code_response_def files_code_finish truthy_def file_of_def Let_def
        split: option.splits)
  moreover have "test_files (parse_test_response U r) =
           (let sc = foldl (test_step U) test_init (split 10 r) in
            test_files (result sc)
            @ (case current_file sc of
                 None \<Rightarrow> []
               | Some q \<Rightarrow>
                   if q \<noteq> [] \<and> current_content sc \<noteq> []
                   then [\<lparr>path = q, content = join nl (current_content sc),
                           language = detect_language_from_path U q\<rparr>]
                   else []))"
    by (simp add: parse_test_response_def files_test_finish truthy_def file_of_def Let_def
        split: option.splits)
  moreover have "files (code_finish U (foldl (code_step U) (code_step U st h) (body @ rest))) =
           files (result (code_step U st h))
           @ (if strip (remove_all file_marker (strip h)) \<noteq> []
                 \<and> filter (\<lambda>l. \<not> fence_line l) body \<noteq> []
              then [\<lparr>path = strip (remove_all file_marker (strip h)),
                      content = join nl (filter (\<lambda>l. \<not> fence_line l) body),
                      language = detect_language_from_path U (strip (remove_all file_marker (strip h)))\<rparr>]
              else [])"
    using code_finish_after_rest [OF assms(4), of U "code_step U st h" body]
      code_block_at_end [OF assms(1,2,3), of U]
    by (simp add: file_path_of_def)
  moreover have "test_files (test_finish U (foldl (test_step U) (test_step U st' h') (body' @ rest'))) =
           test_files (result (test_step U st' h'))
           @ (if strip (remove_all file_marker (strip h')) \<noteq> []
                 \<and> filter (\<lambda>l. \<not> fence_line l) body' \<noteq> []
              then [\<lparr>path = strip (remove_all file_marker (strip h')),
                      content = join nl (filter (\<lambda>l. \<not> fence_line l) body'),
                      language = detect_language_from_path U (strip (remove_all file_marker (strip h')))\<rparr>]
              else [])"
    using test_finish_after_rest [OF assms(8), of U "test_step U st' h'" body']
      test_block_at_end [OF assms(5,6,7), of U]
    by (simp add: file_path_of_def)
  ultimately show ?thesis by blast
qed

theorem last_file_at_end_of_input_witness:
  "current_section start_state = Some Files
   \<and> startswith (strip (str ''### File: src/a.py'')) file_marker
   \<and> list_all body_line [str ''```python'', str ''x = 1'', str ''```'']
   \<and> leaves_files [str ''## Implementation Notes'', str ''Some notes.'', str ''## Dependencies'', str ''- requests'']
   \<and> current_section test_start_state = Some Test_Files
   \<and> startswith (strip (str ''### File: tests/test_a.py'')) file_marker
   \<and> list_all test_body_line [str ''assert True'']
   \<and> test_leaves_files [str ''## Running the Tests'', str ''pytest'']
   \<and> files (code_finish plain_db (foldl (code_step plain_db)
         (code_step plain_db start_state (str ''### File: src/a.py''))
         ([str ''```python'', str ''x = 1'', str ''```'']
          @ [str ''## Implementation Notes'', str ''Some notes.'', str ''## Dependencies'', str ''- requests'']))) =
       [\<lparr>path = str ''src/a.py'', content = str ''x = 1'', language = str ''python''\<rparr>]
   \<and> test_files (test_finish plain_db (foldl (test_step plain_db)
         (test_step plain_db test_start_state (str ''### File: tests/test_a.py''))
         ([str ''assert True''] @ [str ''## Running the Tests'', str ''pytest'']))) =
       [\<lparr>path = str ''tests/test_a.py'', content = str ''assert True'', language = str ''python''\<rparr>]"
proof -
  have a: "current_section start_state = Some Files"
    and b: "startswith (strip (str ''### File: src/a.py'')) file_marker"
    and c: "list_all body_line [str ''```python'', str ''x = 1'', str ''```'']"
    and c': "leaves_files [str ''## Implementation Notes'', str ''Some notes.'', str ''## Dependencies'', str ''- requests'']"
    by (simp_all add: start_state_def body_line_def section_header_def leaves_files_def
        string_eval code_eval)
  have d: "current_section test_start_state = Some Test_Files"
    and e: "startswith (strip (str ''### File: tests/test_a.py'')) file_marker"
    and f: "list_all test_body_line [str ''assert True'']"
    and f': "test_leaves_files [str ''## Running the Tests'', str ''pytest'']"
    by (simp_all add: test_start_state_def test_body_line_def test_section_header_def
        test_leaves_files_def string_eval test_eval)
  have r1: "files (result (code_step plain_db start_state (str ''### File: src/a.py'')))
           @ (if strip (remove_all file_marker (strip (str ''### File: src/a.py''))) \<noteq> []
                 \<and> filter (\<lambda>l. \<not> fence_line l) [str ''```python'', str ''x = 1'', str ''```''] \<noteq> []
              then [\<lparr>path = strip (remove_all file_marker (strip (str ''### File: src/a.py''))),
                      content = join nl (filter (\<lambda>l. \<not> fence_line l) [str ''```python'', str ''x = 1'', str ''```'']),
                      language = detect_language_from_path plain_db
                        (strip (remove_all file_marker (strip (str ''### File: src/a.py''))))\<rparr>]
              else []) =
       [\<lparr>path = str ''src/a.py'', content = str ''x = 1'', language = str ''python''\<rparr>]"
    by (simp add: start_state_def fence_line_def string_eval detect_eval code_eval)
  have r2: "test_files (result (test_step plain_db test_start_state (str ''### File: tests/test_a.py'')))
           @ (if strip (remove_all file_marker (strip (str ''### File: tests/test_a.py''))) \<noteq> []
                 \<and> filter (\<lambda>l. \<not> fence_line l) [str ''assert True''] \<noteq> []
              then [\<lparr>path = strip (remove_all file_marker (strip (str ''### File: tests/test_a.py''))),
                      content = join nl (filter (\<lambda>l. \<not> fence_line l) [str ''assert True'']),
                      language = detect_language_from_path plain_db
                        (strip (remove_all file_marker (strip (str ''### File: tests/test_a.py''))))\<rparr>]
              else []) =
       [\<lparr>path = str ''tests/test_a.py'', content = str ''assert True'', language = str ''python''\<rparr>]"
    by (simp add: test_start_state_def fence_line_def string_eval detect_eval test_eval)
  note at_input = last_file_at_end_of_input [OF a b c c' d e f f', where U = plain_db
      and r = "[]" and task_data = Map.empty, unfolded r1 r2]
  show ?thesis
    using a b c c' d e f f' at_input by blast
qed

text \<open>
  C6 as stated takes the path to be the text after the marker, trimmed. A header line in
  which the marker occurs twice loses both occurrences.
\<close>

theorem double_marker_counterexample:
  "map path (files (parse_code_response plain_db double_marker_input Map.empty)) =
     [str ''a.py  b.py'']
   \<and> strip (drop (length file_marker) (strip (str ''### File: a.py ### File: b.py''))) =
     str ''a.py ### File: b.py''
   \<and> str ''a.py  b.py'' \<noteq> str ''a.py ### File: b.py''"
proof -
  have "split 10 double_marker_input =
     [str ''## Files to Create/Modify'', str ''### File: a.py ### File: b.py'', str ''x = 1'']"
    by (simp add: double_marker_input_def str_def nl_def)
  then show ?thesis
    unfolding parse_code_response_def by (simp add: string_eval detect_eval code_eval)
qed

section \<open>Round trip of a rendered block, and adjacent headers\<close>

lemma fence_line_body: "fence_line f \<Longrightarrow> body_line f"
  using fence_not_header [of "strip f"] by (simp add: fence_line_def body_line_def)

text \<open>
  C8, as the code has it. A content none of whose lines, once trimmed, starts with the
  fence token, a section header marker or the file marker comes back unchanged from its
  rendering as a single file block, whatever the header line (with a non-empty path) and
  the two fence lines are.
\<close>

theorem rendered_block_round_trip:
  assumes "startswith (strip h) file_marker" and "file_path_of h \<noteq> []" and "no_newline h"
    and "fence_line f1" and "no_newline f1" and "fence_line f2" and "no_newline f2"
    and "list_all (\<lambda>l. body_line l \<and> \<not> fence_line l) (split 10 c)"
  shows "files (parse_code_response U (render h f1 c f2) task_data) =
           [\<lparr>path = file_path_of h, content = c,
              language = detect_language_from_path U (file_path_of h)\<rparr>]"
proof -
  let ?hdr = "str ''## Files to Create/Modify''"
  let ?body = "f1 # split 10 c @ [f2]"
  have "\<forall>l \<in> set ([?hdr, h, f1] @ split 10 c @ [f2]). 10 \<notin> set l"
    using assms(3,5,7) split_no_sep [of _ 10 c] by (auto simp: no_newline_def str_def)
  then have lines: "split 10 (render h f1 c f2) = ?hdr # h # ?body"
    unfolding render_def nl_def by (subst split_join) simp_all
  let ?s0 = "code_step U (code_init task_data) ?hdr"
  have "startswith (strip ?hdr) ?hdr"
    by (simp add: string_eval)
  then have s0: "?s0 = (code_init task_data)\<lparr>current_section := Some Files\<rparr>"
    by (rule code_step_files_header)
  then have sec: "current_section ?s0 = Some Files" and nofile: "\<not> truthy (current_file ?s0)"
    and none: "files (result ?s0) = []"
    by (simp_all add: code_init_def truthy_def)
  have body: "list_all body_line ?body"
    using assms(4,6,8) by (auto simp: fence_line_body list_all_iff)
  have kept: "filter (\<lambda>l. \<not> fence_line l) ?body = split 10 c"
    using assms(4,6,8) by (auto simp: list_all_iff filter_id_conv)
  have "files (code_finish U (foldl (code_step U) (code_step U ?s0 h) ?body)) =
          [\<lparr>path = file_path_of h, content = join nl (split 10 c),
             language = detect_language_from_path U (file_path_of h)\<rparr>]"
    using code_block_at_end [OF sec assms(1) body, of U] assms(1,2) sec nofile none kept
      split_not_Nil [of 10 c]
    by (simp add: code_step_file_header)
  then show ?thesis
    unfolding parse_code_response_def lines by (simp add: nl_def join_split)
qed

theorem rendered_block_round_trip_witness:
  "startswith (strip (str ''### File: src/a.py'')) file_marker
   \<and> file_path_of (str ''### File: src/a.py'') \<noteq> []
   \<and> no_newline (str ''### File: src/a.py'')
   \<and> fence_line (str ''```python'') \<and> no_newline (str ''```python'')
   \<and> fence_line (str ''```'') \<and> no_newline (str ''```'')
   \<and> list_all (\<lambda>l. body_line l \<and> \<not> fence_line l) (split 10 (join nl [str ''x = 1'', [], str ''y = 2'']))
   \<and> files (parse_code_response plain_db
         (render (str ''### File: src/a.py'') (str ''```python'')
            (join nl [str ''x = 1'', [], str ''y = 2'']) (str ''```'')) Map.empty) =
       [\<lparr>path = str ''src/a.py'', content = join nl [str ''x = 1'', [], str ''y = 2''],
          language = str ''python''\<rparr>]"
proof -
  have a: "startswith (strip (str ''### File: src/a.py'')) file_marker"
    and b: "file_path_of (str ''### File: src/a.py'') \<noteq> []"
    and c: "no_newline (str ''### File: src/a.py'')"
    and d: "fence_line (str ''```python'')" and e: "no_newline (str ''```python'')"
    and f: "fence_line (str ''```'')" and g: "no_newline (str ''```'')"
    and h: "list_all (\<lambda>l. body_line l \<and> \<not> fence_line l) (split 10 (join nl [str ''x = 1'', [], str ''y = 2'']))"
    by (simp_all add: file_path_of_def no_newline_def fence_line_def body_line_def
        section_header_def file_marker_def fence_def string_eval)
  have p: "file_path_of (str ''### File: src/a.py'') = str ''src/a.py''"
    by (simp add: file_path_of_def file_marker_def string_eval)
  have l: "detect_language_from_path plain_db (str ''src/a.py'') = str ''python''"
    by (simp add: detect_eval str_def)
  note at_input = rendered_block_round_trip [OF a b c d e f g h, of plain_db Map.empty, unfolded p l]
  show ?thesis
    using a b c d e f g h at_input by blast
qed

text \<open>
  C8 as stated asks only that no line of the content starts with the fence token. A
  Markdown content with a line that reads as a section header is cut there.
\<close>

theorem markdown_round_trip_counterexample:
  "list_all (\<lambda>l. \<not> startswith l fence) (split 10 markdown_content)
   \<and> map content (files (parse_code_response plain_db
         (render (str ''### File: README.md'') (str ''```markdown'') markdown_content (str ''```''))
         Map.empty)) = [str ''intro'']
   \<and> str ''intro'' \<noteq> markdown_content"
proof -
  have c: "split 10 markdown_content = [str ''intro'', str ''## Analysis'', str ''more'']"
    by (simp add: markdown_content_def str_def nl_def)
  have "split 10 (render (str ''### File: README.md'') (str ''```markdown'') markdown_content (str ''```'')) =
     [str ''## Files to Create/Modify'', str ''### File: README.md'', str ''```markdown'',
      str ''intro'', str ''## Analysis'', str ''more'', str ''```'']"
    unfolding render_def c by (simp add: str_def nl_def)
  then show ?thesis
    unfolding parse_code_response_def c
    by (simp add: markdown_content_def string_eval detect_eval code_eval)
qed

text \<open>
  C2 does not hold of the code: a file header that follows another file header at once
  appends the earlier file with the empty content, in both parsers. Only the end of the
  input tests that some line was accumulated.
\<close>

theorem adjacent_headers_keep_empty_file:
  "files (parse_code_response U adjacent_headers_input task_data) =
     [\<lparr>path = str ''src/a.py'', content = [], language = str ''python''\<rparr>,
      \<lparr>path = str ''src/b.py'', content = str ''y = 2'', language = str ''python''\<rparr>]
   \<and> test_files (parse_test_response U adjacent_test_headers_input) =
     [\<lparr>path = str ''tests/test_a.py'', content = [], language = str ''python''\<rparr>,
      \<lparr>path = str ''tests/test_b.py'', content = str ''assert True'', language = str ''python''\<rparr>]"
proof -
  have "split 10 adjacent_headers_input =
     [str ''## Files to Create/Modify'', str ''### File: src/a.py'', str ''### File: src/b.py'',
      str ''y = 2'']"
    and "split 10 adjacent_test_headers_input =
     [str ''## Test Files'', str ''### File: tests/test_a.py'', str ''### File: tests/test_b.py'',
      str ''assert True'']"
    by (simp_all add: adjacent_headers_input_def adjacent_test_headers_input_def str_def nl_def)
  then show ?thesis
    unfolding parse_code_response_def parse_test_response_def
    by (simp add: string_eval detect_eval code_eval test_eval)
qed

section \<open>The list-item harvesters\<close>



lemma set_remove_all: "set (remove_all old s) \<subseteq> set s"
proof (induction old s rule: remove_all.induct)
  case (1 old)
  show ?case by simp
next
  case (2 old c cs)
  show ?case
  proof (cases "old \<noteq> [] \<and> startswith (c # cs) old")
    case True
    with 2 have "set (remove_all old (drop (length old) (c # cs))) \<subseteq> set (drop (length old) (c # cs))"
      by simp
    also have "\<dots> \<subseteq> set (c # cs)" by (rule set_drop_subset)
    finally show ?thesis using True by simp
  next
    case False
    with 2 show ?thesis by auto
  qed
qed

lemma digit_is_alnum: "cp_isdigit U c \<Longrightarrow> cp_isalnum U c"
  by (simp add: cp_isalnum_def)

lemma isdigit_prefix_has_alnum:
  assumes "isdigit U (remove_all old (take n t))"
  shows "list_ex (cp_isalnum U) t"
proof -
  from assms obtain c where c: "c \<in> set (remove_all old (take n t))" and d: "cp_isdigit U c"
    by (cases "remove_all old (take n t)") (auto simp: isdigit_def)
  from c have "c \<in> set t"
    using set_remove_all [of old "take n t"] set_take_subset [of n t] by blast
  with d show ?thesis
    using digit_is_alnum [of U c] by (auto simp: list_ex_iff)
qed

lemma separator_not_item: "separator_line U t \<Longrightarrow> \<not> list_item U t"
  using isdigit_prefix_has_alnum [of U "str ''.''" 2 t]
  by (auto simp: separator_line_def list_item_def)

lemma contains_hd: "contains (x # xs) s \<Longrightarrow> x \<in> set s"
  by (induction s) (auto simp: startswith_Cons)

lemma ascii_lower_letter:
  assumes "ascii_lower c \<in> {114, 97, 115, 109}" and "c < 128"
  shows "cp_isalnum U c"
  using assms by (auto simp: ascii_lower_def cp_isalnum_def cp_isalpha_def split: if_splits)

lemma ascii_keyword_has_alnum:
  assumes "is_ascii t" and "has_keyword U t"
  shows "list_ex (cp_isalnum U) t"
proof -
  from assms obtain k where k: "k \<in> set keyword_list" and c: "contains k (map ascii_lower t)"
    by (auto simp: has_keyword_def lower_def list_ex_iff)
  from k obtain x xs where kx: "k = x # xs" and x: "x \<in> {114, 97, 115, 109}"
    by (auto simp: keyword_list_def str_def)
  from c kx have "x \<in> set (map ascii_lower t)" by (auto dest: contains_hd)
  then obtain c where ct: "c \<in> set t" and "ascii_lower c = x" by auto
  with x assms(1) have "cp_isalnum U c"
    by (intro ascii_lower_letter) (auto simp: is_ascii_def list_all_iff)
  with ct show ?thesis by (auto simp: list_ex_iff)
qed




text \<open>
  Inside the requirements zone a non-empty trimmed line without alphanumeric character
  and without list marker stops the scan: neither it nor any later line adds an item. (A
  line with a trigger phrase restarts the zone instead; a line of ASCII characters
  without alphanumeric character has none.)
\<close>

lemma separator_ends_requirements:
  assumes "separator_line U (strip l)"
    and "is_ascii (strip l) \<or> \<not> has_keyword U (strip l)"
  shows "requirements_loop U True requirements (l # rest) = requirements"
proof -
  have "\<not> has_keyword U (strip l)"
    using assms ascii_keyword_has_alnum [of "strip l" U] by (auto simp: separator_line_def)
  moreover have "\<not> list_item U (strip l)"
    using assms(1) by (rule separator_not_item)
  ultimately show ?thesis
    using assms(1) by (simp add: separator_line_def Let_def)
qed

lemma separator_ends_requirements_example:
  "separator_line plain_db (strip (str ''  ===  ''))
   \<and> is_ascii (strip (str ''  ===  ''))
   \<and> requirements_loop plain_db True [str ''first''] [str ''  ===  '', str ''- later''] =
       [str ''first'']"
proof -
  have a: "separator_line plain_db (strip (str ''  ===  ''))"
    by (simp add: separator_line_def string_eval harvest_eval)
  have b: "is_ascii (strip (str ''  ===  ''))"
    by (simp add: string_eval is_ascii_def)
  from b have c: "is_ascii (strip (str ''  ===  '')) \<or> \<not> has_keyword plain_db (strip (str ''  ===  ''))"
    by (rule disjI1)
  note at_input = separator_ends_requirements [OF a c, of "[str ''first'']" "[str ''- later'']"]
  show ?thesis
    using a b at_input by blast
qed

text \<open>
  C5 does not hold of the code. The branch that ends the requirements section at a
  non-empty line without alphanumeric character comes after the list-marker test, so a
  rule of dashes, which starts with a list marker, never reaches it: the rule yields the
  empty item and the lines after it are still harvested.
\<close>

theorem dashes_do_not_end_requirements:
  "strip (str ''---'') \<noteq> []
   \<and> \<not> list_ex (cp_isalnum plain_db) (strip (str ''---''))
   \<and> extract_requirements_from_content plain_db
        (join nl [str ''Requirements:'', str ''---'', str ''- later'']) = [[], str ''later'']"
proof -
  have "split 10 (join nl [str ''Requirements:'', str ''---'', str ''- later'']) =
          [str ''Requirements:'', str ''---'', str ''- later'']"
    by (simp add: str_def nl_def)
  then show ?thesis
    unfolding extract_requirements_from_content_def
    by (simp add: string_eval harvest_eval)
qed

section \<open>Results on any input\<close>

lemma foldl_invariant:
  assumes "P s" and "\<And>s x. x \<in> set xs \<Longrightarrow> P s \<Longrightarrow> P (f s x)"
  shows "P (foldl f s xs)"
  using assms by (induction xs arbitrary: s) simp_all

lemma file_of_well_formed: "truthy f \<Longrightarrow> list_all (well_formed_file U) (file_of U f c)"
  by (cases f) (simp_all add: truthy_def file_of_def well_formed_file_def)

lemma code_step_well_formed:
  assumes "list_all (well_formed_file U) (files (result st))"
  shows "list_all (well_formed_file U) (files (result (code_step U st l)))"
  using assms file_of_well_formed [of "current_file st" U "current_content st"]
  by (simp add: code_step_def Let_def)

lemma test_step_well_formed:
  assumes "list_all (well_formed_file U) (test_files (result st))"
  shows "list_all (well_formed_file U) (test_files (result (test_step U st l)))"
  using assms file_of_well_formed [of "current_file st" U "current_content st"]
  by (simp add: test_step_def Let_def)

lemma code_files_well_formed:
  "list_all (well_formed_file U) (files (parse_code_response U r task_data))"
proof -
  let ?s = "foldl (code_step U) (code_init task_data) (split 10 r)"
  have "list_all (well_formed_file U) (files (result ?s))"
    by (rule foldl_invariant) (simp_all add: code_init_def code_step_well_formed)
  then show ?thesis
    using file_of_well_formed [of "current_file ?s" U "current_content ?s"]
    by (simp add: parse_code_response_def code_finish_def)
qed

lemma test_files_well_formed:
  "list_all (well_formed_file U) (test_files (parse_test_response U r))"
proof -
  let ?s = "foldl (test_step U) test_init (split 10 r)"
  have "list_all (well_formed_file U) (test_files (result ?s))"
    by (rule foldl_invariant) (simp_all add: test_init_def test_step_well_formed)
  then show ?thesis
    using file_of_well_formed [of "current_file ?s" U "current_content ?s"]
    by (simp add: parse_test_response_def test_finish_def)
qed

lemma acceptance_loop_subset:
  "set (acceptance_loop U b criteria ls) \<subseteq> set criteria \<union> set (harvest U ls)"
proof (induction ls arbitrary: b criteria)
  case Nil
  show ?case by simp
next
  case (Cons l ls)
  have h: "set (harvest U ls) \<subseteq> set (harvest U (l # ls))"
    by (auto simp: harvest_def)
  have i: "list_item U (strip l) \<Longrightarrow> lstrip_chars marker_chars (strip l) \<in> set (harvest U (l # ls))"
    by (simp add: harvest_def)
  show ?case
    using Cons.IH [of True criteria] Cons.IH [of b criteria]
      Cons.IH [of b "criteria @ [lstrip_chars marker_chars (strip l)]"] h i
    by (auto simp: Let_def)
qed

lemma requirements_loop_subset:
  "set (requirements_loop U b requirements ls) \<subseteq> set requirements \<union> set (harvest U ls)"
proof (induction ls arbitrary: b requirements)
  case Nil
  show ?case by simp
next
  case (Cons l ls)
  have h: "set (harvest U ls) \<subseteq> set (harvest U (l # ls))"
    by (auto simp: harvest_def)
  have i: "list_item U (strip l) \<Longrightarrow> lstrip_chars marker_chars (strip l) \<in> set (harvest U (l # ls))"
    by (simp add: harvest_def)
  show ?case
    using Cons.IH [of True requirements] Cons.IH [of b requirements]
      Cons.IH [of b "requirements @ [lstrip_chars marker_chars (strip l)]"] h i
    by (auto simp: Let_def)
qed

lemma acceptance_loop_untriggered:
  assumes "list_all (\<lambda>l. \<not> contains (str ''acceptance criteria'') (lower U (strip l))) ls"
  shows "acceptance_loop U False criteria ls = criteria"
  using assms by (induction ls) (simp_all add: Let_def)

lemma requirements_loop_untriggered:
  assumes "list_all (\<lambda>l. \<not> has_keyword U (strip l)) ls"
  shows "requirements_loop U False requirements ls = requirements"
  using assms by (induction ls) (simp_all add: Let_def)

section \<open>Missing markers\<close>

lemma code_step_no_analysis:
  assumes "\<not> startswith (strip l) (str ''## Analysis'')"
    and "current_section st \<noteq> Some Analysis \<and> analysis (result st) = []"
  shows "current_section (code_step U st l) \<noteq> Some Analysis
       \<and> analysis (result (code_step U st l)) = []"
  using assms by (simp add: code_step_def Let_def)

lemma code_no_analysis:
  assumes "absent (str ''## Analysis'') r"
  shows "analysis (parse_code_response U r task_data) = []"
proof -
  let ?P = "\<lambda>st :: (code_result, code_section) scan. current_section st \<noteq> Some Analysis \<and> analysis (result st) = []"
  have "?P (foldl (code_step U) (code_init task_data) (split 10 r))"
  proof (rule foldl_invariant)
    show "?P (code_init task_data)" by (simp add: code_init_def)
  next
    fix s x
    assume "x \<in> set (split 10 r)" and "?P s"
    with assms show "?P (code_step U s x)"
      by (intro code_step_no_analysis) (simp_all add: absent_def list_all_iff)
  qed
  then show ?thesis
    by (simp add: parse_code_response_def code_finish_def)
qed

lemma code_step_no_impl_notes:
  assumes "\<not> startswith (strip l) (str ''## Implementation Notes'')"
    and "current_section st \<noteq> Some Notes \<and> impl_notes (result st) = []"
  shows "current_section (code_step U st l) \<noteq> Some Notes
       \<and> impl_notes (result (code_step U st l)) = []"
  using assms by (simp add: code_step_def Let_def)

lemma code_no_impl_notes:
  assumes "absent (str ''## Implementation Notes'') r"
  shows "impl_notes (parse_code_response U r task_data) = []"
proof -
  let ?P = "\<lambda>st :: (code_result, code_section) scan. current_section st \<noteq> Some Notes \<and> impl_notes (result st) = []"
  have "?P (foldl (code_step U) (code_init task_data) (split 10 r))"
  proof (rule foldl_invariant)
    show "?P (code_init task_data)" by (simp add: code_init_def)
  next
    fix s x
    assume "x \<in> set (split 10 r)" and "?P s"
    with assms show "?P (code_step U s x)"
      by (intro code_step_no_impl_notes) (simp_all add: absent_def list_all_iff)
  qed
  then show ?thesis
    by (simp add: parse_code_response_def code_finish_def)
qed

lemma code_step_no_dependencies:
  assumes "\<not> startswith (strip l) (str ''## Dependencies'')"
    and "current_section st \<noteq> Some Dependencies \<and> dependencies (result st) = []"
  shows "current_section (code_step U st l) \<noteq> Some Dependencies
       \<and> dependencies (result (code_step U st l)) = []"
  using assms by (simp add: code_step_def Let_def)

lemma code_no_dependencies:
  assumes "absent (str ''## Dependencies'') r"
  shows "dependencies (parse_code_response U r task_data) = []"
proof -
  let ?P = "\<lambda>st :: (code_result, code_section) scan. current_section st \<noteq> Some Dependencies \<and> dependencies (result st) = []"
  have "?P (foldl (code_step U) (code_init task_data) (split 10 r))"
  proof (rule foldl_invariant)
    show "?P (code_init task_data)" by (simp add: code_init_def)
  next
    fix s x
    assume "x \<in> set (split 10 r)" and "?P s"
    with assms show "?P (code_step U s x)"
      by (intro code_step_no_dependencies) (simp_all add: absent_def list_all_iff)
  qed
  then show ?thesis
    by (simp add: parse_code_response_def code_finish_def)
qed

lemma test_step_no_strategy:
  assumes "\<not> startswith (strip l) (str ''## Test Strategy'')"
    and "current_section st \<noteq> Some Strategy \<and> strategy (result st) = []"
  shows "current_section (test_step U st l) \<noteq> Some Strategy
       \<and> strategy (result (test_step U st l)) = []"
  using assms by (simp add: test_step_def Let_def)

lemma test_no_strategy:
  assumes "absent (str ''## Test Strategy'') r"
  shows "strategy (parse_test_response U r) = []"
proof -
  let ?P = "\<lambda>st :: (test_result, test_section) scan. current_section st \<noteq> Some Strategy \<and> strategy (result st) = []"
  have "?P (foldl (test_step U) test_init (split 10 r))"
  proof (rule foldl_invariant)
    show "?P test_init" by (simp add: test_init_def)
  next
    fix s x
    assume "x \<in> set (split 10 r)" and "?P s"
    with assms show "?P (test_step U s x)"
      by (intro test_step_no_strategy) (simp_all add: absent_def list_all_iff)
  qed
  then show ?thesis
    by (simp add: parse_test_response_def test_finish_def)
qed

lemma test_step_no_test_dependencies:
  assumes "\<not> startswith (strip l) (str ''## Test Dependencies'')"
    and "current_section st \<noteq> Some Test_Dependencies \<and> test_dependencies (result st) = []"
  shows "current_section (test_step U st l) \<noteq> Some Test_Dependencies
       \<and> test_dependencies (result (test_step U st l)) = []"
  using assms by (simp add: test_step_def Let_def)

lemma test_no_test_dependencies:
  assumes "absent (str ''## Test Dependencies'') r"
  shows "test_dependencies (parse_test_response U r) = []"
proof -
  let ?P = "\<lambda>st :: (test_result, test_section) scan. current_section st \<noteq> Some Test_Dependencies \<and> test_dependencies (result st) = []"
  have "?P (foldl (test_step U) test_init (split 10 r))"
  proof (rule foldl_invariant)
    show "?P test_init" by (simp add: test_init_def)
  next
    fix s x
    assume "x \<in> set (split 10 r)" and "?P s"
    with assms show "?P (test_step U s x)"
      by (intro test_step_no_test_dependencies) (simp_all add: absent_def list_all_iff)
  qed
  then show ?thesis
    by (simp add: parse_test_response_def test_finish_def)
qed

lemma test_step_no_run_instructions:
  assumes "\<not> startswith (strip l) (str ''## Running the Tests'')"
    and "current_section st \<noteq> Some Instructions \<and> run_instructions (result st) = []"
  shows "current_section (test_step U st l) \<noteq> Some Instructions
       \<and> run_instructions (result (test_step U st l)) = []"
  using assms by (simp add: test_step_def Let_def)

lemma test_no_run_instructions:
  assumes "absent (str ''## Running the Tests'') r"
  shows "run_instructions (parse_test_response U r) = []"
proof -
  let ?P = "\<lambda>st :: (test_result, test_section) scan. current_section st \<noteq> Some Instructions \<and> run_instructions (result st) = []"
  have "?P (foldl (test_step U) test_init (split 10 r))"
  proof (rule foldl_invariant)
    show "?P test_init" by (simp add: test_init_def)
  next
    fix s x
    assume "x \<in> set (split 10 r)" and "?P s"
    with assms show "?P (test_step U s x)"
      by (intro test_step_no_run_instructions) (simp_all add: absent_def list_all_iff)
  qed
  then show ?thesis
    by (simp add: parse_test_response_def test_finish_def)
qed

lemma code_step_no_marker:
  assumes "\<not> startswith (strip l) (file_marker)"
    and "current_file st = None \<and> files (result st) = []"
  shows "current_file (code_step U st l) = None
       \<and> files (result (code_step U st l)) = []"
  using assms by (simp add: code_step_def Let_def truthy_def)

lemma code_no_marker:
  assumes "absent (file_marker) r"
  shows "files (parse_code_response U r task_data) = []"
proof -
  let ?P = "\<lambda>st :: (code_result, code_section) scan. current_file st = None \<and> files (result st) = []"
  have "?P (foldl (code_step U) (code_init task_data) (split 10 r))"
  proof (rule foldl_invariant)
    show "?P (code_init task_data)" by (simp add: code_init_def)
  next
    fix s x
    assume "x \<in> set (split 10 r)" and "?P s"
    with assms show "?P (code_step U s x)"
      by (intro code_step_no_marker) (simp_all add: absent_def list_all_iff)
  qed
  then show ?thesis
    by (simp add: parse_code_response_def code_finish_def truthy_def)
qed

lemma code_step_no_files_section:
  assumes "\<not> startswith (strip l) (str ''## Files to Create/Modify'')"
    and "current_section st \<noteq> Some Files \<and> current_file st = None \<and> files (result st) = []"
  shows "current_section (code_step U st l) \<noteq> Some Files
       \<and> current_file (code_step U st l) = None
       \<and> files (result (code_step U st l)) = []"
  using assms by (simp add: code_step_def Let_def truthy_def)

lemma code_no_files_section:
  assumes "absent (str ''## Files to Create/Modify'') r"
  shows "files (parse_code_response U r task_data) = []"
proof -
  let ?P = "\<lambda>st :: (code_result, code_section) scan. current_section st \<noteq> Some Files \<and> current_file st = None \<and> files (result st) = []"
  have "?P (foldl (code_step U) (code_init task_data) (split 10 r))"
  proof (rule foldl_invariant)
    show "?P (code_init task_data)" by (simp add: code_init_def)
  next
    fix s x
    assume "x \<in> set (split 10 r)" and "?P s"
    with assms show "?P (code_step U s x)"
      by (intro code_step_no_files_section) (simp_all add: absent_def list_all_iff)
  qed
  then show ?thesis
    by (simp add: parse_code_response_def code_finish_def truthy_def)
qed

lemma test_step_no_marker:
  assumes "\<not> startswith (strip l) (file_marker)"
    and "current_file st = None \<and> test_files (result st) = []"
  shows "current_file (test_step U st l) = None
       \<and> test_files (result (test_step U st l)) = []"
  using assms by (simp add: test_step_def Let_def truthy_def)

lemma test_no_marker:
  assumes "absent (file_marker) r"
  shows "test_files (parse_test_response U r) = []"
proof -
  let ?P = "\<lambda>st :: (test_result, test_section) scan. current_file st = None \<and> test_files (result st) = []"
  have "?P (foldl (test_step U) test_init (split 10 r))"
  proof (rule foldl_invariant)
    show "?P test_init" by (simp add: test_init_def)
  next
    fix s x
    assume "x \<in> set (split 10 r)" and "?P s"
    with assms show "?P (test_step U s x)"
      by (intro test_step_no_marker) (simp_all add: absent_def list_all_iff)
  qed
  then show ?thesis
    by (simp add: parse_test_response_def test_finish_def truthy_def)
qed

lemma test_step_no_files_section:
  assumes "\<not> startswith (strip l) (str ''## Test Files'')"
    and "current_section st \<noteq> Some Test_Files \<and> current_file st = None \<and> test_files (result st) = []"
  shows "current_section (test_step U st l) \<noteq> Some Test_Files
       \<and> current_file (test_step U st l) = None
       \<and> test_files (result (test_step U st l)) = []"
  using assms by (simp add: test_step_def Let_def truthy_def)

lemma test_no_files_section:
  assumes "absent (str ''## Test Files'') r"
  shows "test_files (parse_test_response U r) = []"
proof -
  let ?P = "\<lambda>st :: (test_result, test_section) scan. current_section st \<noteq> Some Test_Files \<and> current_file st = None \<and> test_files (result st) = []"
  have "?P (foldl (test_step U) test_init (split 10 r))"
  proof (rule foldl_invariant)
    show "?P test_init" by (simp add: test_init_def)
  next
    fix s x
    assume "x \<in> set (split 10 r)" and "?P s"
    with assms show "?P (test_step U s x)"
      by (intro test_step_no_files_section) (simp_all add: absent_def list_all_iff)
  qed
  then show ?thesis
    by (simp add: parse_test_response_def test_finish_def truthy_def)
qed

section \<open>Results on malformed input\<close>

text \<open>
  C7. The source applies to a string no operation that can raise, so each extractor is a
  total function of its input and its model has no error value. On every input the files
  of a result have a non-empty path and the language of that path, and the items of a
  harvest are items of lines of the input. A response without file marker has no file; a
  response without the header of a section has that section's field empty; a description
  without trigger phrase has no item. Fences are not counted anywhere: balanced or not,
  they change none of this.
\<close>

theorem extractors_degrade_gracefully:
  "list_all (well_formed_file U) (files (parse_code_response U r task_data))
   \<and> list_all (well_formed_file U) (test_files (parse_test_response U r))
   \<and> set (extract_acceptance_criteria U d) \<subseteq> set (harvest U (split 10 d))
   \<and> set (extract_requirements_from_content U d) \<subseteq> set (harvest U (split 10 d))
   \<and> (absent file_marker r \<longrightarrow>
        files (parse_code_response U r task_data) = [] \<and> test_files (parse_test_response U r) = [])
   \<and> (absent (str ''## Files to Create/Modify'') r \<longrightarrow> files (parse_code_response U r task_data) = [])
   \<and> (absent (str ''## Analysis'') r \<longrightarrow> analysis (parse_code_response U r task_data) = [])
   \<and> (absent (str ''## Implementation Notes'') r \<longrightarrow> impl_notes (parse_code_response U r task_data) = [])
   \<and> (absent (str ''## Dependencies'') r \<longrightarrow> dependencies (parse_code_response U r task_data) = [])
   \<and> (absent (str ''## Test Files'') r \<longrightarrow> test_files (parse_test_response U r) = [])
   \<and> (absent (str ''## Test Strategy'') r \<longrightarrow> strategy (parse_test_response U r) = [])
   \<and> (absent (str ''## Test Dependencies'') r \<longrightarrow> test_dependencies (parse_test_response U r) = [])
   \<and> (absent (str ''## Running the Tests'') r \<longrightarrow> run_instructions (parse_test_response U r) = [])
   \<and> (list_all (\<lambda>l. \<not> contains (str ''acceptance criteria'') (lower U (strip l))) (split 10 d) \<longrightarrow>
        extract_acceptance_criteria U d = [])
   \<and> (list_all (\<lambda>l. \<not> has_keyword U (strip l)) (split 10 d) \<longrightarrow>
        extract_requirements_from_content U d = [])"
proof -
  have "set (extract_acceptance_criteria U d) \<subseteq> set (harvest U (split 10 d))"
    using acceptance_loop_subset [of U False "[]" "split 10 d"]
    by (simp add: extract_acceptance_criteria_def)
  moreover have "set (extract_requirements_from_content U d) \<subseteq> set (harvest U (split 10 d))"
    using requirements_loop_subset [of U False "[]" "split 10 d"]
    by (simp add: extract_requirements_from_content_def)
  moreover have "list_all (\<lambda>l. \<not> contains (str ''acceptance criteria'') (lower U (strip l))) (split 10 d)
      \<Longrightarrow> extract_acceptance_criteria U d = []"
    by (simp add: extract_acceptance_criteria_def acceptance_loop_untriggered)
  moreover have "list_all (\<lambda>l. \<not> has_keyword U (strip l)) (split 10 d)
      \<Longrightarrow> extract_requirements_from_content U d = []"
    by (simp add: extract_requirements_from_content_def requirements_loop_untriggered)
  ultimately show ?thesis
    using code_files_well_formed [of U r task_data] test_files_well_formed [of U r]
      code_no_marker [of r U task_data] test_no_marker [of r U]
      code_no_files_section [of r U task_data] test_no_files_section [of r U]
      code_no_analysis [of r U task_data] code_no_impl_notes [of r U task_data]
      code_no_dependencies [of r U task_data]
      test_no_strategy [of r U] test_no_test_dependencies [of r U]
      test_no_run_instructions [of r U]
    by blast
qed

theorem extractors_degrade_gracefully_witness:
  "absent file_marker refusal_input
   \<and> absent (str ''## Files to Create/Modify'') refusal_input
   \<and> absent (str ''## Analysis'') refusal_input
   \<and> absent (str ''## Implementation Notes'') refusal_input
   \<and> absent (str ''## Dependencies'') refusal_input
   \<and> absent (str ''## Test Files'') refusal_input
   \<and> absent (str ''## Test Strategy'') refusal_input
   \<and> absent (str ''## Test Dependencies'') refusal_input
   \<and> absent (str ''## Running the Tests'') refusal_input
   \<and> list_all (\<lambda>l. \<not> contains (str ''acceptance criteria'') (lower plain_db (strip l)))
        (split 10 plain_description)
   \<and> list_all (\<lambda>l. \<not> has_keyword plain_db (strip l)) (split 10 plain_description)
   \<and> parse_code_response plain_db refusal_input Map.empty =
       \<lparr>task_key = str ''unknown'', files = [], analysis = [], impl_notes = [], dependencies = []\<rparr>
   \<and> parse_test_response plain_db refusal_input =
       \<lparr>test_files = [], strategy = [], test_dependencies = [], run_instructions = []\<rparr>
   \<and> extract_acceptance_criteria plain_db plain_description = []
   \<and> extract_requirements_from_content plain_db plain_description = []"
proof -
  have lines: "split 10 refusal_input =
      [str ''Sorry, I cannot write this file.'', str ''```python'', str ''x = 1'']"
    "split 10 plain_description = [str ''The login page'', str ''- loads fast'']"
    by (simp_all add: refusal_input_def plain_description_def str_def nl_def)
  have a: "absent file_marker refusal_input"
    "absent (str ''## Files to Create/Modify'') refusal_input"
    "absent (str ''## Analysis'') refusal_input"
    "absent (str ''## Implementation Notes'') refusal_input"
    "absent (str ''## Dependencies'') refusal_input"
    "absent (str ''## Test Files'') refusal_input"
    "absent (str ''## Test Strategy'') refusal_input"
    "absent (str ''## Test Dependencies'') refusal_input"
    "absent (str ''## Running the Tests'') refusal_input"
    unfolding absent_def lines by (simp_all add: file_marker_def string_eval)
  have b: "list_all (\<lambda>l. \<not> contains (str ''acceptance criteria'') (lower plain_db (strip l)))
        (split 10 plain_description)"
    "list_all (\<lambda>l. \<not> has_keyword plain_db (strip l)) (split 10 plain_description)"
    unfolding lines by (simp_all add: string_eval harvest_eval)
  note at_input = extractors_degrade_gracefully [of plain_db refusal_input Map.empty plain_description]
  have c: "task_key (parse_code_response plain_db refusal_input Map.empty) = str ''unknown''"
    unfolding parse_code_response_def lines by (simp add: string_eval code_eval)
  have "parse_code_response plain_db refusal_input Map.empty =
       \<lparr>task_key = str ''unknown'', files = [], analysis = [], impl_notes = [], dependencies = []\<rparr>"
    using a at_input c by (cases "parse_code_response plain_db refusal_input Map.empty") simp
  moreover have "parse_test_response plain_db refusal_input =
       \<lparr>test_files = [], strategy = [], test_dependencies = [], run_instructions = []\<rparr>"
    using a at_input by (cases "parse_test_response plain_db refusal_input") simp
  moreover have "extract_acceptance_criteria plain_db plain_description = []"
    "extract_requirements_from_content plain_db plain_description = []"
    using b at_input by blast+
  ultimately show ?thesis
    using a b by blast
qed

section \<open>Facts about language detection\<close>

lemma rfind_from_append:
  "rfind_from c (xs @ ys) i found =
     rfind_from c ys (i + int (length xs)) (rfind_from c xs i found)"
  by (induction xs arbitrary: i found) (simp_all add: algebra_simps)

lemma rfind_from_map:
  assumes "\<And>x. (f x = c) = (x = c)"
  shows "rfind_from c (map f xs) i found = rfind_from c xs i found"
  by (induction xs arbitrary: i found) (simp_all add: assms)

lemma ascii_lower_keeps: "(ascii_lower x = 46) = (x = 46)" "(ascii_lower x = 47) = (x = 47)"
  by (auto simp: ascii_lower_def)

lemma list_ex_map_lower:
  "list_ex (\<lambda>c. c \<noteq> 46) (take n (drop m (map ascii_lower p))) =
     list_ex (\<lambda>c. c \<noteq> 46) (take n (drop m p))"
  by (simp add: list_ex_iff drop_map take_map ascii_lower_keeps)

lemma splitext_map_lower:
  "snd (splitext (map ascii_lower p)) = map ascii_lower (snd (splitext p))"
proof -
  have r: "rfind (map ascii_lower p) 46 = rfind p 46" "rfind (map ascii_lower p) 47 = rfind p 47"
    by (simp_all add: rfind_def rfind_from_map ascii_lower_keeps)
  show ?thesis
    unfolding splitext_def r Let_def list_ex_map_lower by (simp add: drop_map)
qed

lemma splitext_ascii: "is_ascii p \<Longrightarrow> is_ascii (snd (splitext p))"
  using set_drop_subset [of _ p]
  by (auto simp: splitext_def is_ascii_def list_all_iff Let_def)

lemma detect_ascii:
  assumes "is_ascii p"
  shows "detect_language_from_path U p =
           (case map_of extension_map (snd (splitext (map ascii_lower p))) of
              None \<Rightarrow> str ''text'' | Some lang \<Rightarrow> lang)"
  using splitext_ascii [OF assms]
  by (simp add: detect_language_from_path_def lower_def splitext_map_lower Let_def)

lemma endswith_append: "endswith p e \<Longrightarrow> \<exists>r. p = r @ e"
proof -
  assume "endswith p e"
  then have "take (length e) (rev p) = rev e"
    by (simp add: endswith_def startswith_def)
  then have "rev p = rev e @ drop (length e) (rev p)"
    using append_take_drop_id [of "length e" "rev p"] by simp
  then have "rev (rev p) = rev (rev e @ drop (length e) (rev p))" by simp
  then have "p = rev (drop (length e) (rev p)) @ e" by simp
  then show ?thesis ..
qed

lemma splitext_dot_letter:
  assumes "x \<noteq> 46" and "x \<noteq> 47"
  shows "snd (splitext (r @ [46, x])) = [46, x] \<or> snd (splitext (r @ [46, x])) = []"
proof -
  have "rfind (r @ [46, x]) 46 = int (length r)"
    using assms by (simp add: rfind_def rfind_from_append)
  then show ?thesis
    by (simp add: splitext_def Let_def)
qed

lemma lower_no_capital:
  assumes "lowercases U"
  shows "list_all (\<lambda>c. c < 65 \<or> 90 < c) (lower U s)"
  using assms by (auto simp: lowercases_def lower_def ascii_lower_def list_all_iff)

lemma lookup_dot_r: "map_of extension_map [46, 114] = None" "map_of extension_map [] = None"
  by (simp_all add: extension_map_def str_def)

lemma only_capital_key:
  assumes "k \<noteq> str ''.R''"
  shows "map_of extension_map k \<noteq> Some (str ''r'')"
  using assms by (simp add: extension_map_def str_def)

lemma dot_r_is_text:
  assumes "endswith p (str ''.R'') \<or> endswith p (str ''.r'')"
  shows "detect_language_from_path U p = str ''text''"
proof -
  from assms obtain r x where p: "p = r @ [46, x]" and x: "x = 82 \<or> x = 114"
    by (auto dest!: endswith_append simp: str_def)
  then have e: "snd (splitext p) = [46, x] \<or> snd (splitext p) = []"
    using splitext_dot_letter [of x r] by auto
  have "lower U [46, x] = [46, 114]" "lower U [] = []"
    using x by (auto simp: lower_def is_ascii_def ascii_lower_def)
  with e show ?thesis
    by (auto simp: detect_language_from_path_def lookup_dot_r Let_def)
qed

lemma never_r:
  assumes "lowercases U"
  shows "detect_language_from_path U p \<noteq> str ''r''"
proof
  assume r: "detect_language_from_path U p = str ''r''"
  have "str ''text'' \<noteq> str ''r''" by (simp add: str_def)
  with r have "map_of extension_map (lower U (snd (splitext p))) = Some (str ''r'')"
    by (auto simp: detect_language_from_path_def Let_def split: option.splits)
  then have "lower U (snd (splitext p)) = str ''.R''"
    using only_capital_key [of "lower U (snd (splitext p))"] by blast
  moreover have "list_all (\<lambda>c. c < 65 \<or> 90 < c) (lower U (snd (splitext p)))"
    using assms by (rule lower_no_capital)
  ultimately show False by (simp add: str_def)
qed

lemma case_insensitive:
  assumes "is_ascii p" and "is_ascii q" and "map ascii_lower p = map ascii_lower q"
  shows "detect_language_from_path U p = detect_language_from_path U q"
  using assms by (simp add: detect_ascii)

lemma key_shape_set:
  "\<forall>(k, v) \<in> set extension_map. \<exists>k'. k = 46 # k' \<and> 46 \<notin> set k' \<and> 47 \<notin> set k'"
  by (simp add: extension_map_def str_def)

lemma key_shape:
  assumes "map_of extension_map k = Some v"
  shows "\<exists>k'. k = 46 # k' \<and> 46 \<notin> set k' \<and> 47 \<notin> set k'"
  using map_of_SomeD [OF assms] key_shape_set by blast

lemma rfind_from_notin: "c \<notin> set xs \<Longrightarrow> rfind_from c xs i found = found"
  by (induction xs arbitrary: i found) simp_all

lemma rfind_from_bounds:
  "found < i \<Longrightarrow> found \<le> rfind_from c xs i found \<and> rfind_from c xs i found < i + int (length xs)"
proof (induction xs arbitrary: i found)
  case Nil
  then show ?case by simp
next
  case (Cons x xs)
  have "(if x = c then i else found) < i + 1" using Cons.prems by simp
  from Cons.IH [OF this] Cons.prems show ?case by (auto split: if_splits)
qed

lemma splitext_after_stem:
  assumes "stem \<noteq> []" and "last stem \<noteq> 46" and "last stem \<noteq> 47"
    and "46 \<notin> set e'" and "47 \<notin> set e'"
  shows "snd (splitext (stem @ 46 # e')) = 46 # e'"
proof -
  obtain b x where stem: "stem = b @ [x]" and x: "x \<noteq> 46" "x \<noteq> 47"
    using assms(1,2,3) by (cases stem rule: rev_cases) auto
  let ?p = "stem @ 46 # e'"
  have dot: "rfind ?p 46 = int (length stem)"
    using assms(4) by (simp add: rfind_def rfind_from_append rfind_from_notin)
  have "rfind ?p 47 = rfind_from 47 b 0 (- 1)"
    using assms(5) x by (simp add: rfind_def stem rfind_from_append rfind_from_notin)
  moreover have "- 1 \<le> rfind_from 47 b 0 (- 1) \<and> rfind_from 47 b 0 (- 1) < 0 + int (length b)"
    by (rule rfind_from_bounds) simp
  ultimately have "rfind ?p 47 = int (nat (rfind ?p 47 + 1)) - 1"
    and "nat (rfind ?p 47 + 1) \<le> length b"
    by arith+
  then obtain m where sep: "rfind ?p 47 = int m - 1" and m: "m \<le> length b"
    by blast
  have "x \<in> set (take (length stem - m) (drop m ?p))"
    using m by (simp add: stem)
  then have "list_ex (\<lambda>c. c \<noteq> 46) (take (length stem - m) (drop m ?p))"
    using x by (auto simp: list_ex_iff)
  moreover have "nat (int (length stem) - (int m - 1 + 1)) = length stem - m"
    by simp
  moreover have "int m - 1 < int (length stem)"
    using m by (simp add: stem)
  ultimately show ?thesis
    by (simp add: splitext_def dot sep Let_def)
qed

lemma known_extension:
  assumes "map_of extension_map (map ascii_lower e) = Some v" and "is_ascii e"
    and "stem \<noteq> []" and "last stem \<noteq> 46" and "last stem \<noteq> 47"
  shows "detect_language_from_path U (stem @ e) = v"
proof -
  from key_shape [OF assms(1)] obtain k' where k: "map ascii_lower e = 46 # k'"
    and k': "46 \<notin> set k'" "47 \<notin> set k'" by auto
  then obtain c e' where e: "e = c # e'" and c: "ascii_lower c = 46" and e': "map ascii_lower e' = k'"
    by (cases e) auto
  from c have c46: "c = 46" by (simp add: ascii_lower_keeps)
  from k' e' have "46 \<notin> set e'" "47 \<notin> set e'"
    by (auto simp: ascii_lower_keeps)
  then have "snd (splitext (stem @ e)) = e"
    using assms(3,4,5) unfolding e c46 by (rule splitext_after_stem [rotated 3])
  then show ?thesis
    using assms(1,2) by (simp add: detect_language_from_path_def lower_def Let_def)
qed

text \<open>
  C10. The table is consulted at the lowercased extension. A path whose name ends, after a
  character other than the dot and the slash, in an ASCII extension that is a key of the
  table once lowercased has the language of that key, whatever the letter case of the
  extension. So two paths of ASCII characters that differ only in letter case have the
  same language, and so have any two paths whose extensions are equal once lowercased. A
  path that ends in \<open>.R\<close> or \<open>.r\<close> has the default language \<open>text\<close>, and no path has the
  language \<open>r\<close>: its only key is \<open>.R\<close>, which no lowercased string equals.
\<close>

theorem extension_case_is_ignored:
  "(is_ascii e \<and> stem \<noteq> [] \<and> last stem \<noteq> 46 \<and> last stem \<noteq> 47
      \<and> map_of extension_map (map ascii_lower e) = Some v \<longrightarrow>
      detect_language_from_path U (stem @ e) = v)
   \<and> (is_ascii p \<and> is_ascii q \<and> map ascii_lower p = map ascii_lower q \<longrightarrow>
      detect_language_from_path U p = detect_language_from_path U q)
   \<and> (lower U (snd (splitext p)) = lower U (snd (splitext q)) \<longrightarrow>
      detect_language_from_path U p = detect_language_from_path U q)
   \<and> (endswith p (str ''.R'') \<or> endswith p (str ''.r'') \<longrightarrow>
      detect_language_from_path U p = str ''text'')
   \<and> (lowercases U \<longrightarrow> detect_language_from_path U p \<noteq> str ''r'')"
  using known_extension [of e v stem U] case_insensitive [of p q U] dot_r_is_text [of p U]
    never_r [of U p]
  by (auto simp: detect_language_from_path_def Let_def)

theorem extension_case_is_ignored_witness:
  "is_ascii (str ''.PY'') \<and> str ''test'' \<noteq> []
   \<and> last (str ''test'') \<noteq> 46 \<and> last (str ''test'') \<noteq> 47
   \<and> map_of extension_map (map ascii_lower (str ''.PY'')) = Some (str ''python'')
   \<and> is_ascii (str ''src/Stats.R'') \<and> is_ascii (str ''src/stats.r'')
   \<and> map ascii_lower (str ''src/Stats.R'') = map ascii_lower (str ''src/stats.r'')
   \<and> lower plain_db (snd (splitext (str ''src/Stats.R''))) =
       lower plain_db (snd (splitext (str ''src/stats.r'')))
   \<and> endswith (str ''src/Stats.R'') (str ''.R'')
   \<and> lowercases plain_db
   \<and> detect_language_from_path plain_db (str ''test'' @ str ''.PY'') = str ''python''
   \<and> detect_language_from_path plain_db (str ''src/Stats.R'') =
       detect_language_from_path plain_db (str ''src/stats.r'')
   \<and> detect_language_from_path plain_db (str ''src/Stats.R'') = str ''text''
   \<and> detect_language_from_path plain_db (str ''src/Stats.R'') \<noteq> str ''r''"
proof -
  have k: "is_ascii (str ''.PY'')" "str ''test'' \<noteq> []"
    "last (str ''test'') \<noteq> 46" "last (str ''test'') \<noteq> 47"
    "map_of extension_map (map ascii_lower (str ''.PY'')) = Some (str ''python'')"
    by (simp_all add: is_ascii_def ascii_lower_def extension_map_def str_def)
  have a: "is_ascii (str ''src/Stats.R'')" "is_ascii (str ''src/stats.r'')"
    "map ascii_lower (str ''src/Stats.R'') = map ascii_lower (str ''src/stats.r'')"
    by (simp_all add: is_ascii_def ascii_lower_def str_def)
  have b: "lower plain_db (snd (splitext (str ''src/Stats.R''))) =
       lower plain_db (snd (splitext (str ''src/stats.r'')))"
    by (simp add: splitext_def rfind_def lower_def is_ascii_def ascii_lower_def str_def)
  have c: "endswith (str ''src/Stats.R'') (str ''.R'')"
    by (simp add: endswith_def startswith_def str_def)
  have d: "lowercases plain_db"
    by (auto simp: lowercases_def plain_db_def ascii_lower_def list_all_iff)
  note at_input = extension_case_is_ignored [of "str ''.PY''" "str ''test''" "str ''python''"
      plain_db "str ''src/Stats.R''" "str ''src/stats.r''"]
  show ?thesis
    using k a b c d at_input by blast
qed

end
